theory Spec2Isabelle
  imports Main "HOL-Library.Word"
begin

unbundle bit_operations_syntax

text \<open>
  A shallow embedding of the TCG Opal host library: the atom codec of \<open>atom.cpp\<close> and the
  session engine of \<open>drive.cpp\<close> (method invocation, the ComPacket envelope, receive
  polling, chunked binary table writes, revert), with the properties of its
  specification stated and proved over the embedding.
\<close>

section \<open>Bytes, failures and byte order\<close>

text \<open>
  The library works on octets (\<open>byte\<close>, \<open>byte_vector\<close> of \<open>defs.h\<close>) and reports every
  error by throwing \<open>topaz::exception\<close> / \<open>topaz_exception\<close> with a message. A throw is the
  value \<open>Inl (topaz_exception msg)\<close>. A read past the end of a fixed C array, which the
  language leaves undefined, is the separate failure \<open>out_of_bounds\<close>, so that every place
  where the source could do so is a visible branch.
\<close>

type_synonym byte = "8 word"
type_synonym byte_vector = "byte list"

datatype failure = topaz_exception string | out_of_bounds

text \<open>
  \<open>htobe64\<close> followed by a read of the union member \<open>raw[0..7]\<close>: the eight bytes of a
  64-bit value, most significant first. \<open>from_be64\<close> is the way back (\<open>be64toh\<close> of the
  union filled through \<open>raw\<close>).
\<close>

definition be64 :: "64 word \<Rightarrow> byte list" where
  "be64 v = [ucast (drop_bit 56 v), ucast (drop_bit 48 v), ucast (drop_bit 40 v),
             ucast (drop_bit 32 v), ucast (drop_bit 24 v), ucast (drop_bit 16 v),
             ucast (drop_bit 8 v), ucast v]"

definition from_be64 :: "byte list \<Rightarrow> 64 word" where
  "from_be64 raw8 = foldl (\<lambda>acc b. push_bit 8 acc OR ucast b) 0 raw8"


section \<open>Atoms (\<open>atom.cpp\<close>)\<close>

text \<open>
  The class \<open>atom\<close>: its type tag, its encoding class, the number of leading bytes an
  integer drops (\<open>int_skip\<close>), the integer itself (\<open>uint_val\<close>, which shares its storage
  with \<open>int_val\<close>: a signed value is the same 64 bits read as two's complement) and the
  byte payload. \<open>atom::INT\<close> is written \<open>INTEGER\<close> here.
\<close>

datatype type_t = EMPTY | UINT | INTEGER | BYTES
datatype enc_t = NONE | TINY | SHORT | MEDIUM | LONG

record atom =
  data_type :: type_t
  data_enc :: enc_t
  int_skip :: nat
  uint_val :: "64 word"
  bytes :: byte_vector

text \<open>
  Modelled from the spec: the token constants of \<open>atom.h\<close>, which is not among the
  sources. The format table gives them: a tiny atom is \<open>0b0xxx_xxxx\<close> with bit 6 the sign
  flag; a short atom \<open>0b10bs_llll\<close>; a medium atom \<open>0b110b_slll\<close>; a long atom
  \<open>0b1110_00bs\<close>; the empty atom \<open>0xFF\<close>. The decoder below reads the same bits back
  (\<open>data[0] >> 6\<close>, \<open>>> 4\<close>, \<open>>> 3\<close> and the low two bits).
\<close>

definition TINY_TOK :: byte where "TINY_TOK = 0x00"
definition TINY_SIGN :: byte where "TINY_SIGN = 0x40"
definition SHORT_TOK :: byte where "SHORT_TOK = 0x80"
definition SHORT_BIN :: byte where "SHORT_BIN = 0x20"
definition SHORT_SIGN :: byte where "SHORT_SIGN = 0x10"
definition MEDIUM_TOK :: byte where "MEDIUM_TOK = 0xc0"
definition MEDIUM_BIN :: byte where "MEDIUM_BIN = 0x10"
definition MEDIUM_SIGN :: byte where "MEDIUM_SIGN = 0x08"
definition LONG_TOK :: byte where "LONG_TOK = 0xe0"
definition LONG_BIN :: byte where "LONG_BIN = 0x02"
definition LONG_SIGN :: byte where "LONG_SIGN = 0x01"
definition EMPTY_TOK :: byte where "EMPTY_TOK = 0xff"

lemmas tok_defs = TINY_TOK_def TINY_SIGN_def SHORT_TOK_def SHORT_BIN_def SHORT_SIGN_def
  MEDIUM_TOK_def MEDIUM_BIN_def MEDIUM_SIGN_def LONG_TOK_def LONG_BIN_def LONG_SIGN_def EMPTY_TOK_def

subsection \<open>Constructors\<close>

text \<open>
  \<open>atom::atom()\<close>, \<open>atom::atom(uint64_t, bool)\<close>, \<open>atom::atom(int64_t)\<close> and
  \<open>atom::atom(byte_vector)\<close>. A member a constructor leaves unassigned is 0 or empty here;
  no operation below reads such a member for the type it was left out for. The loops
  that count the droppable leading bytes are \<open>skip_zero\<close> (unsigned) and \<open>skip_sign\<close>
  (signed: drop a \<open>fill\<close> byte while the next byte still carries the sign \<open>hi\<close>). The
  signed loop reads \<open>raw[int_skip + 1]\<close>, which for \<open>int_skip = 7\<close> lies past the union.
\<close>

definition atom_default :: atom where
  "atom_default = \<lparr>data_type = EMPTY, data_enc = NONE, int_skip = 0, uint_val = 0, bytes = []\<rparr>"

definition pick_encoding :: "nat \<Rightarrow> failure + enc_t" where
  "pick_encoding byte_count =
     (if byte_count < 16 then Inr SHORT
      else if byte_count < 2048 then Inr MEDIUM
      else if byte_count < 16777216 then Inr LONG
      else Inl (topaz_exception ''Atom too large to encode''))"

function skip_zero :: "byte list \<Rightarrow> nat \<Rightarrow> nat" where
  "skip_zero raw8 k = (if k < 8 \<and> raw8 ! k = 0x00 then skip_zero raw8 (k + 1) else k)"
  by pat_completeness auto
termination
  by (relation "measure (\<lambda>(raw8, k). 8 - k)") auto

definition atom_uint :: "64 word \<Rightarrow> bool \<Rightarrow> atom" where
  "atom_uint val is_uid =
     (if is_uid then
        \<lparr>data_type = BYTES, data_enc = SHORT, int_skip = 0, uint_val = val, bytes = be64 val\<rparr>
      else if val < 0x40 then
        \<lparr>data_type = UINT, data_enc = TINY, int_skip = 0, uint_val = val, bytes = []\<rparr>
      else
        \<lparr>data_type = UINT, data_enc = SHORT, int_skip = skip_zero (be64 val) 0,
         uint_val = val, bytes = []\<rparr>)"

function skip_sign :: "byte \<Rightarrow> byte \<Rightarrow> byte list \<Rightarrow> nat \<Rightarrow> failure + nat" where
  "skip_sign fill hi raw8 k =
     (if k < 8 \<and> raw8 ! k = fill then
        (if k + 1 < 8 then
           (if raw8 ! (k + 1) AND 0x80 = hi then skip_sign fill hi raw8 (k + 1) else Inr k)
         else Inl out_of_bounds)
      else Inr k)"
  by pat_completeness auto
termination
  by (relation "measure (\<lambda>(fill, hi, raw8, k). 8 - k)") auto

definition atom_int :: "64 word \<Rightarrow> failure + atom" where
  "atom_int val =
     (if val <s 0x20 \<and> - 0x20 \<le>s val then
        Inr \<lparr>data_type = INTEGER, data_enc = TINY, int_skip = 0, uint_val = val, bytes = []\<rparr>
      else
        (case (if val <s 0 then skip_sign 0xff 0x80 (be64 val) 0
               else skip_sign 0x00 0x00 (be64 val) 0) of
           Inl e \<Rightarrow> Inl e
         | Inr k \<Rightarrow>
             Inr \<lparr>data_type = INTEGER, data_enc = SHORT, int_skip = k, uint_val = val, bytes = []\<rparr>))"

definition atom_bytes :: "byte_vector \<Rightarrow> failure + atom" where
  "atom_bytes data =
     (case pick_encoding (length data) of
        Inl e \<Rightarrow> Inl e
      | Inr enc \<Rightarrow>
          Inr \<lparr>data_type = BYTES, data_enc = enc, int_skip = 0, uint_val = 0, bytes = data\<rparr>)"

subsection \<open>Equality, size and encoding\<close>

text \<open>
  \<open>atom::operator==\<close>, \<open>atom::get_header_size\<close>, \<open>atom::size\<close> and
  \<open>atom::encode_bytes\<close>. The encoder returns the bytes it writes; the count the C++
  returns is their number. \<open>flag c b\<close> is the statement \<open>if (c) data[i] |= b\<close>. A length
  is or-ed into a byte as C narrows it (\<open>of_nat\<close> into 8 bits).
\<close>

definition atom_eq :: "atom \<Rightarrow> atom \<Rightarrow> bool" where
  "atom_eq a ref =
     (if data_type a = data_type ref \<and> data_enc a = data_enc ref then
        (case data_type a of
           UINT \<Rightarrow> uint_val a = uint_val ref
         | INTEGER \<Rightarrow> uint_val a = uint_val ref
         | BYTES \<Rightarrow>
             length (bytes a) = length (bytes ref) \<and>
             (\<forall>i < length (bytes a). bytes a ! i = bytes ref ! i)
         | EMPTY \<Rightarrow> True)
      else False)"

definition get_header_size :: "atom \<Rightarrow> nat" where
  "get_header_size a =
     (case data_enc a of NONE \<Rightarrow> 0 | TINY \<Rightarrow> 0 | SHORT \<Rightarrow> 1 | MEDIUM \<Rightarrow> 2 | LONG \<Rightarrow> 4)"

definition size_atom :: "atom \<Rightarrow> nat" where
  "size_atom a =
     (if data_type a = EMPTY \<or> data_enc a = TINY then 1
      else if data_type a = BYTES then get_header_size a + length (bytes a)
      else get_header_size a + (8 - int_skip a))"

definition flag :: "bool \<Rightarrow> byte \<Rightarrow> byte" where
  "flag c b = (if c then b else 0)"

definition encode_bytes :: "atom \<Rightarrow> byte list" where
  "encode_bytes a =
     (if data_type a = EMPTY then [EMPTY_TOK]
      else
        let len = (if data_type a = BYTES then length (bytes a) else 8 - int_skip a);
            enc_data = (if data_type a = BYTES then bytes a
                        else drop (int_skip a) (be64 (uint_val a)))
        in case data_enc a of
             TINY \<Rightarrow>
               [TINY_TOK OR flag (data_type a = INTEGER) TINY_SIGN OR (0x3f AND ucast (uint_val a))]
           | SHORT \<Rightarrow>
               [SHORT_TOK OR flag (data_type a = BYTES) SHORT_BIN
                  OR flag (data_type a = INTEGER) SHORT_SIGN OR of_nat len] @ enc_data
           | MEDIUM \<Rightarrow>
               [MEDIUM_TOK OR flag (data_type a = BYTES) MEDIUM_BIN
                  OR flag (data_type a = INTEGER) MEDIUM_SIGN OR of_nat (len div 256),
                of_nat len] @ enc_data
           | _ \<Rightarrow>
               [LONG_TOK OR flag (data_type a = BYTES) LONG_BIN
                  OR flag (data_type a = INTEGER) LONG_SIGN,
                of_nat (len div 65536), of_nat (len div 256), of_nat len] @ enc_data)"

subsection \<open>Decoding\<close>

text \<open>
  \<open>atom::decode_bytes\<close> with its helpers. The object decoded into is the argument
  \<open>self\<close>: members the decoder does not assign keep their value. \<open>decode_payload\<close> is the
  common tail of \<open>decode_bytes\<close> from the comment "Ensure expected remaining data is
  present" on.
\<close>

definition decode_check_size :: "nat \<Rightarrow> nat \<Rightarrow> failure option" where
  "decode_check_size len m =
     (if len < m then Some (topaz_exception ''Atom encoding too short'') else None)"

definition decode_set_type :: "byte \<Rightarrow> failure + type_t" where
  "decode_set_type bits =
     (if bits = 0 then Inr UINT
      else if bits = 1 then Inr INTEGER
      else if bits = 2 then Inr BYTES
      else Inl (topaz_exception ''Invalid / Unhandled atom type''))"

definition decode_int :: "atom \<Rightarrow> byte list \<Rightarrow> nat \<Rightarrow> failure + atom" where
  "decode_int a data len =
     (if len = 0 \<or> len > 8 then Inl (topaz_exception ''Invalid integer Atom length'')
      else
        let skip = 8 - len;
            fill = (if data_type a = INTEGER \<and> data ! 0 AND 0x80 \<noteq> 0 then 0xff else 0x00);
            raw8 = replicate skip fill @ take len data
        in Inr (a\<lparr>int_skip := skip, uint_val := from_be64 raw8\<rparr>))"

definition decode_payload :: "atom \<Rightarrow> byte list \<Rightarrow> nat \<Rightarrow> nat \<Rightarrow> failure + atom \<times> nat" where
  "decode_payload a data head_bytes count =
     (case decode_check_size (length data) (head_bytes + count) of
        Some e \<Rightarrow> Inl e
      | None \<Rightarrow>
          if data_type a = UINT \<or> data_type a = INTEGER then
            (case decode_int a (drop head_bytes data) count of
               Inl e \<Rightarrow> Inl e
             | Inr a' \<Rightarrow> Inr (a', head_bytes + count))
          else if data_type a = BYTES then
            Inr (a\<lparr>bytes := take count (drop head_bytes data)\<rparr>, head_bytes + count)
          else Inr (a, head_bytes + count))"

definition decode_bytes :: "atom \<Rightarrow> byte list \<Rightarrow> failure + atom \<times> nat" where
  "decode_bytes self data =
     (case decode_check_size (length data) 1 of
        Some e \<Rightarrow> Inl e
      | None \<Rightarrow>
          let d0 = data ! 0 in
          if d0 = EMPTY_TOK then Inr (self\<lparr>data_type := EMPTY, data_enc := NONE\<rparr>, 1)
          else if d0 < SHORT_TOK then
            (case decode_set_type (0x03 AND drop_bit 6 d0) of
               Inl e \<Rightarrow> Inl e
             | Inr t \<Rightarrow>
                 let v = ucast (0x3f AND d0) :: 64 word;
                     v' = (if t = INTEGER \<and> d0 AND 0x20 \<noteq> 0 then v OR NOT 0x3f else v)
                 in Inr (self\<lparr>data_enc := TINY, data_type := t, uint_val := v'\<rparr>, 1))
          else if d0 < MEDIUM_TOK then
            (case decode_set_type (0x03 AND drop_bit 4 d0) of
               Inl e \<Rightarrow> Inl e
             | Inr t \<Rightarrow>
                 decode_payload (self\<lparr>data_enc := SHORT, data_type := t\<rparr>) data 1
                   (unat (d0 AND 0x0f)))
          else if d0 < LONG_TOK then
            (case decode_check_size (length data) 2 of
               Some e \<Rightarrow> Inl e
             | None \<Rightarrow>
                 (case decode_set_type (0x03 AND drop_bit 3 d0) of
                    Inl e \<Rightarrow> Inl e
                  | Inr t \<Rightarrow>
                      decode_payload (self\<lparr>data_enc := MEDIUM, data_type := t\<rparr>) data 2
                        (unat (0x07 AND d0) * 256 + unat (data ! 1))))
          else if d0 < 0xe4 then
            (case decode_check_size (length data) 4 of
               Some e \<Rightarrow> Inl e
             | None \<Rightarrow>
                 (case decode_set_type (0x03 AND d0) of
                    Inl e \<Rightarrow> Inl e
                  | Inr t \<Rightarrow>
                      decode_payload (self\<lparr>data_enc := LONG, data_type := t\<rparr>) data 4
                        ((unat (data ! 1) * 256 + unat (data ! 2)) * 256 + unat (data ! 3))))
          else Inl (topaz_exception ''Cannot parse atom (invalid token)''))"

subsection \<open>Accessors\<close>

definition get_uid :: "atom \<Rightarrow> failure + 64 word" where
  "get_uid a =
     (if data_type a \<noteq> BYTES \<or> data_enc a \<noteq> SHORT \<or> length (bytes a) \<noteq> 8
      then Inl (topaz_exception ''Invalid UID Atom'')
      else Inr (from_be64 (take 8 (bytes a))))"

definition get_uint :: "atom \<Rightarrow> failure + 64 word" where
  "get_uint a =
     (if data_type a \<noteq> UINT then Inl (topaz_exception ''Atom is not unsigned integer'')
      else Inr (uint_val a))"

subsection \<open>Well-formed atoms\<close>

text \<open>
  The states of an atom that its constructors and its decoder produce: an empty atom has
  no encoding class; a tiny integer lies in the tiny range of its type; any other integer
  keeps at least one byte, and the bytes it drops are what the decoder fills back in
  (zero bytes, or \<open>0xff\<close> bytes for a signed value whose first kept byte has its top bit
  set); a byte sequence has a class whose length field holds its length.
\<close>

definition atom_wf :: "atom \<Rightarrow> bool" where
  "atom_wf a =
     (case data_type a of
        EMPTY \<Rightarrow> data_enc a = NONE
      | UINT \<Rightarrow>
          (case data_enc a of
             NONE \<Rightarrow> False
           | TINY \<Rightarrow> uint_val a < 0x40
           | _ \<Rightarrow> int_skip a < 8 \<and>
                 take (int_skip a) (be64 (uint_val a)) = replicate (int_skip a) 0x00)
      | INTEGER \<Rightarrow>
          (case data_enc a of
             NONE \<Rightarrow> False
           | TINY \<Rightarrow> - 0x20 \<le>s uint_val a \<and> uint_val a <s 0x20
           | _ \<Rightarrow> int_skip a < 8 \<and>
                 take (int_skip a) (be64 (uint_val a)) =
                   replicate (int_skip a)
                     (if be64 (uint_val a) ! int_skip a AND 0x80 \<noteq> 0 then 0xff else 0x00))
      | BYTES \<Rightarrow>
          (case data_enc a of
             SHORT \<Rightarrow> length (bytes a) < 16
           | MEDIUM \<Rightarrow> length (bytes a) < 2048
           | LONG \<Rightarrow> length (bytes a) < 16777216
           | _ \<Rightarrow> False))"


text \<open>The two type bits of a header byte, as \<open>decode_set_type\<close> reads them.\<close>

definition type_bits :: "type_t \<Rightarrow> byte" where
  "type_bits t = (case t of UINT \<Rightarrow> 0 | INTEGER \<Rightarrow> 1 | BYTES \<Rightarrow> 2 | EMPTY \<Rightarrow> 3)"


section \<open>Data items and what lies outside the sources\<close>

text \<open>
  Modelled from the spec: the data item of the invoke-based engine (\<open>datum\<close>). Its class
  and codec (\<open>datum.cpp\<close>) are not among the sources; only an older header is. The
  variants are those of the specification's data model, under the names of the header's
  \<open>type_t\<close>: unset, a bare atom, a named value, a list, a method call (invoking UID,
  method UID, arguments) and the end-of-session token. \<open>datum_list\<close> is the accessor
  \<open>list()\<close>: the children of a list or of a call, none otherwise.
\<close>

datatype datum =
    UNSET
  | ATOM atom
  | NAMED atom datum
  | LIST "datum list"
  | METHOD "64 word" "64 word" "datum list"
  | END_SESSION

fun datum_list :: "datum \<Rightarrow> datum list" where
  "datum_list (LIST xs) = xs"
| "datum_list (METHOD obj meth xs) = xs"
| "datum_list d = []"

text \<open>Tokens and status codes, from the enumerations \<open>token_t\<close> and \<open>status_t\<close> of \<open>datum.h\<close>.\<close>

definition TOK_START_LIST :: byte where "TOK_START_LIST = 0xf0"
definition TOK_END_LIST :: byte where "TOK_END_LIST = 0xf1"
definition TOK_END_OF_DATA :: byte where "TOK_END_OF_DATA = 0xf9"
definition TOK_END_SESSION :: byte where "TOK_END_SESSION = 0xfa"
definition STA_SUCCESS :: byte where "STA_SUCCESS = 0x00"
definition STA_NOT_AUTHORIZED :: byte where "STA_NOT_AUTHORIZED = 0x01"

text \<open>
  What the engine uses and the sources do not hold is a parameter of every operation
  below: the datum codec (\<open>encode_vector\<close>, which may throw, and \<open>decode_vector\<close>,
  which returns the datum and the number of bytes it consumed) and the well-known UIDs of
  \<open>uid.h\<close>. Every theorem about the engine holds for every value of these.
\<close>

record externals =
  encode_vector :: "datum \<Rightarrow> failure + byte_vector"
  decode_vector :: "byte_vector \<Rightarrow> failure + datum \<times> nat"
  SESSION_MGR :: "64 word"
  ADMIN_SP :: "64 word"
  REVERT :: "64 word"
  SET :: "64 word"

section \<open>The envelope\<close>

text \<open>
  Modelled from the spec: the constants and structures of \<open>defs.h\<close>, which is not among
  the sources. A block is 512 bytes. The three headers of the specification, all fields
  big-endian:
  \<open>ComPacketHeader { u32 reserved; u16 com_id; u16 com_id_ext; u32 outstanding;
  u32 min_transfer; u32 length; }\<close> (20 bytes),
  \<open>PacketHeader { u32 tper_session_id; u32 host_session_id; u32 seq_number;
  u16 reserved; u16 ack_type; u32 acknowledgement; u32 length; }\<close> (24 bytes),
  \<open>SubPacketHeader { u8 reserved[6]; u16 kind; u32 length; }\<close> (12 bytes);
  \<open>opal_header_t\<close> is the three in a row (56 bytes). The functions \<open>hdr_...\<close> read a
  field back from a block, as \<open>be16toh\<close> / \<open>be32toh\<close> of the member do.
\<close>

definition ATA_BLOCK_SIZE :: nat where "ATA_BLOCK_SIZE = 512"
definition sizeof_com_packet_header :: nat where "sizeof_com_packet_header = 20"
definition sizeof_packet_header :: nat where "sizeof_packet_header = 24"
definition sizeof_sub_packet_header :: nat where "sizeof_sub_packet_header = 12"
definition sizeof_opal_header :: nat where
  "sizeof_opal_header = sizeof_com_packet_header + sizeof_packet_header + sizeof_sub_packet_header"

definition be16 :: "16 word \<Rightarrow> byte list" where
  "be16 v = [ucast (drop_bit 8 v), ucast v]"
definition be32 :: "32 word \<Rightarrow> byte list" where
  "be32 v = [ucast (drop_bit 24 v), ucast (drop_bit 16 v), ucast (drop_bit 8 v), ucast v]"
definition from_be16 :: "byte list \<Rightarrow> 16 word" where
  "from_be16 bs = foldl (\<lambda>acc b. push_bit 8 acc OR ucast b) 0 bs"
definition from_be32 :: "byte list \<Rightarrow> 32 word" where
  "from_be32 bs = foldl (\<lambda>acc b. push_bit 8 acc OR ucast b) 0 bs"

definition com_packet_header :: "16 word \<Rightarrow> 32 word \<Rightarrow> byte list" where
  "com_packet_header cid len =
     replicate 4 0 @ be16 cid @ replicate 2 0 @ replicate 4 0 @ replicate 4 0 @ be32 len"
definition packet_header :: "32 word \<Rightarrow> 32 word \<Rightarrow> 32 word \<Rightarrow> byte list" where
  "packet_header tper host len =
     be32 tper @ be32 host @ replicate 4 0 @ replicate 2 0 @ replicate 2 0 @ replicate 4 0 @ be32 len"
definition sub_packet_header :: "32 word \<Rightarrow> byte list" where
  "sub_packet_header len = replicate 6 0 @ replicate 2 0 @ be32 len"

definition hdr_com_id :: "byte list \<Rightarrow> 16 word" where
  "hdr_com_id block = from_be16 (take 2 (drop 4 block))"
definition hdr_com_length :: "byte list \<Rightarrow> 32 word" where
  "hdr_com_length block = from_be32 (take 4 (drop 16 block))"
definition hdr_tper_session_id :: "byte list \<Rightarrow> 32 word" where
  "hdr_tper_session_id block = from_be32 (take 4 (drop 20 block))"
definition hdr_host_session_id :: "byte list \<Rightarrow> 32 word" where
  "hdr_host_session_id block = from_be32 (take 4 (drop 24 block))"
definition hdr_pkt_length :: "byte list \<Rightarrow> 32 word" where
  "hdr_pkt_length block = from_be32 (take 4 (drop 40 block))"
definition hdr_sub_length :: "byte list \<Rightarrow> 32 word" where
  "hdr_sub_length block = from_be32 (take 4 (drop 52 block))"

section \<open>The transport (\<open>rawdrive.cpp\<close>)\<close>

text \<open>
  \<open>rawdrive::if_send\<close> and \<open>rawdrive::if_recv\<close> pass a buffer of \<open>bcount\<close> blocks to the
  drive through an ATA pass-through ioctl; \<open>proto\<close> and \<open>bcount\<close> are \<open>uint8_t\<close>, \<open>comid\<close>
  is \<open>uint16_t\<close>. The drive and the ioctl are the environment: \<open>sent\<close> records every call
  of \<open>if_send\<close> with the bytes it transfers (\<open>bcount * 512\<close> of the buffer), \<open>send_fault\<close>
  says whether the n-th call throws, \<open>device\<close> is what the n-th call of \<open>if_recv\<close> yields
  (a throw, or the data the drive puts into the buffer), and \<open>received\<close> records the
  calls of \<open>if_recv\<close>.
\<close>

record rawdrive =
  sent :: "(byte \<times> 16 word \<times> byte list \<times> byte) list"
  send_fault :: "nat \<Rightarrow> failure option"
  received :: "(byte \<times> 16 word \<times> byte) list"
  device :: "nat \<Rightarrow> failure + byte list"

definition if_send ::
  "rawdrive \<Rightarrow> byte \<Rightarrow> 16 word \<Rightarrow> byte list \<Rightarrow> byte \<Rightarrow> failure option \<times> rawdrive" where
  "if_send r proto comid data bcount =
     (send_fault r (length (sent r)),
      r\<lparr>sent := sent r @ [(proto, comid, take (unat bcount * ATA_BLOCK_SIZE) data, bcount)]\<rparr>)"

definition if_recv ::
  "rawdrive \<Rightarrow> byte \<Rightarrow> 16 word \<Rightarrow> byte \<Rightarrow> (failure + byte list) \<times> rawdrive" where
  "if_recv r proto comid bcount =
     (case device r (length (received r)) of
        Inl e \<Rightarrow> Inl e
      | Inr data \<Rightarrow>
          Inr (take (unat bcount * ATA_BLOCK_SIZE)
                 (data @ replicate (unat bcount * ATA_BLOCK_SIZE) 0)),
      r\<lparr>received := received r @ [(proto, comid, bcount)]\<rparr>)"

section \<open>The drive handle (\<open>drive.cpp\<close>)\<close>

text \<open>
  The members of class \<open>drive\<close>. \<open>slept_us\<close> is not a member: it adds up the
  microseconds spent in \<open>usleep\<close>, so that the polling budget can be stated. Every
  operation returns the handle as it leaves it, also when it throws.
\<close>

record drive =
  raw :: rawdrive
  tper_session_id :: "64 word"
  host_session_id :: "64 word"
  has_opal1 :: bool
  has_opal2 :: bool
  com_id :: "32 word"
  lba_align :: "64 word"
  max_com_pkt_size :: "64 word"
  admin_count :: "32 word"
  user_count :: "32 word"
  slept_us :: nat

definition PAD_TO_MULTIPLE :: "nat \<Rightarrow> nat \<Rightarrow> nat" where
  "PAD_TO_MULTIPLE val mult = ((val + (mult - 1)) div mult) * mult"

definition POLL_MS :: nat where "POLL_MS = 10"
definition TIMEOUT_SECS :: nat where "TIMEOUT_SECS = 5"

text \<open>
  \<open>drive::send(byte_vector const &, bool)\<close>. \<open>pkt_size_of\<close>, \<open>com_size_of\<close> and
  \<open>tot_size_of\<close> are its local variables \<open>pkt_size\<close>, \<open>com_size\<close> and \<open>tot_size\<close> as functions
  of \<open>sub_size\<close>; \<open>opal_block\<close> is the zeroed buffer with the headers filled in and the
  payload copied. The lengths go through \<open>htobe32\<close> (32 bits), the ComID through
  \<open>htobe16\<close>, the 64-bit session ids through \<open>htobe32\<close>, and the block count is narrowed
  to the \<open>uint8_t\<close> parameter of \<open>if_send\<close>.
\<close>

definition pkt_size_of :: "nat \<Rightarrow> nat" where
  "pkt_size_of sub_size = PAD_TO_MULTIPLE (sub_size + sizeof_sub_packet_header) 4"
definition com_size_of :: "nat \<Rightarrow> nat" where
  "com_size_of sub_size = pkt_size_of sub_size + sizeof_packet_header"
definition tot_size_of :: "nat \<Rightarrow> nat" where
  "tot_size_of sub_size =
     PAD_TO_MULTIPLE (com_size_of sub_size + sizeof_com_packet_header) ATA_BLOCK_SIZE"

definition opal_packet :: "16 word \<Rightarrow> 32 word \<Rightarrow> 32 word \<Rightarrow> byte_vector \<Rightarrow> byte list" where
  "opal_packet cid tper host outbuf =
     (let sub_size = length outbuf
      in com_packet_header cid (of_nat (com_size_of sub_size))
         @ packet_header tper host (of_nat (pkt_size_of sub_size))
         @ sub_packet_header (of_nat sub_size)
         @ outbuf
         @ replicate (tot_size_of sub_size - sizeof_opal_header - sub_size) 0)"

definition opal_block :: "drive \<Rightarrow> byte_vector \<Rightarrow> bool \<Rightarrow> byte list" where
  "opal_block d outbuf session_ids =
     opal_packet (ucast (com_id d))
       (if session_ids then ucast (tper_session_id d) else 0)
       (if session_ids then ucast (host_session_id d) else 0)
       outbuf"

text \<open>
  What one call of \<open>if_send\<close> from \<open>send\<close> leaves in the log \<open>sent\<close>: protocol 1, the
  ComID, the bytes transferred and the block count as \<open>if_send\<close> receives it.
\<close>

definition transfer :: "drive \<Rightarrow> byte_vector \<Rightarrow> bool \<Rightarrow> byte \<times> 16 word \<times> byte list \<times> byte" where
  "transfer d outbuf session_ids =
     (1, ucast (com_id d),
      take (unat (of_nat (tot_size_of (length outbuf) div ATA_BLOCK_SIZE) :: byte) * ATA_BLOCK_SIZE)
        (opal_block d outbuf session_ids),
      of_nat (tot_size_of (length outbuf) div ATA_BLOCK_SIZE))"

definition send :: "drive \<Rightarrow> byte_vector \<Rightarrow> bool \<Rightarrow> failure option \<times> drive" where
  "send d outbuf session_ids =
     (let tot_size = tot_size_of (length outbuf)
      in if tot_size > unat (max_com_pkt_size d)
         then (Some (topaz_exception ''ComPkt too large for drive''), d)
         else
           (case if_send (raw d) 1 (ucast (com_id d)) (opal_block d outbuf session_ids)
                   (of_nat (tot_size div ATA_BLOCK_SIZE)) of
              (r, raw') \<Rightarrow> (r, d\<lparr>raw := raw'\<rparr>)))"

text \<open>
  \<open>drive::recv(byte_vector &)\<close>. \<open>recv_poll\<close> is its do-while loop, with the counter
  \<open>max_iters\<close> (an \<open>int\<close>) as argument; it returns the last block read and the counter.
  The copy of \<open>count\<close> payload bytes out of the 512-byte block reads past the block when
  \<open>count\<close> exceeds the room behind the headers.
\<close>

function recv_poll :: "int \<Rightarrow> drive \<Rightarrow> (failure + byte list \<times> int) \<times> drive" where
  "recv_poll max_iters d =
     (case if_recv (raw d) 1 (ucast (com_id d)) 1 of
        (Inl e, raw') \<Rightarrow> (Inl e, d\<lparr>raw := raw'\<rparr>)
      | (Inr block, raw') \<Rightarrow>
          if ucast (hdr_com_id block) \<noteq> com_id d
          then (Inl (topaz_exception ''Unexpected ComID in drive response''), d\<lparr>raw := raw'\<rparr>)
          else if hdr_com_length block = 0
          then (if max_iters - 1 > 0
                then recv_poll (max_iters - 1)
                       (d\<lparr>raw := raw', slept_us := slept_us d + POLL_MS * 1000\<rparr>)
                else (Inr (block, max_iters - 1),
                      d\<lparr>raw := raw', slept_us := slept_us d + POLL_MS * 1000\<rparr>))
          else (Inr (block, max_iters), d\<lparr>raw := raw'\<rparr>))"
  by pat_completeness auto
termination
  by (relation "measure (\<lambda>(max_iters, d). nat max_iters)") auto

declare recv_poll.simps [simp del]

definition recv :: "drive \<Rightarrow> (failure + byte_vector) \<times> drive" where
  "recv d =
     (case recv_poll (int ((TIMEOUT_SECS * 1000) div POLL_MS)) d of
        (Inl e, d') \<Rightarrow> (Inl e, d')
      | (Inr (block, max_iters), d') \<Rightarrow>
          if max_iters = 0
          then (Inl (topaz_exception ''Timeout waiting for response''), d')
          else
            (let cnt = unat (hdr_sub_length block)
             in if sizeof_opal_header + cnt \<le> ATA_BLOCK_SIZE
                then (Inr (take cnt (drop sizeof_opal_header block)), d')
                else (Inl out_of_bounds, d')))"

text \<open>
  \<open>drive::invoke\<close>. The check \<open>bytes.size() - count != 6\<close> is unsigned 64-bit
  arithmetic (\<open>size_t_sub\<close>); the status is \<open>bytes[count + 2]\<close>.
\<close>

definition size_t_sub :: "nat \<Rightarrow> nat \<Rightarrow> nat" where
  "size_t_sub a b = (a + 2 ^ 64 - b) mod 2 ^ 64"

definition invoke ::
  "externals \<Rightarrow> drive \<Rightarrow> 64 word \<Rightarrow> 64 word \<Rightarrow> datum \<Rightarrow> (failure + datum) \<times> drive" where
  "invoke x d object_uid method_uid params =
     (case encode_vector x (METHOD object_uid method_uid (datum_list params)) of
        Inl e \<Rightarrow> (Inl e, d)
      | Inr enc \<Rightarrow>
          (case send d
                  (enc @ [TOK_END_OF_DATA, TOK_START_LIST, 0, 0, 0, TOK_END_LIST])
                  (object_uid \<noteq> SESSION_MGR x) of
             (Some e, d1) \<Rightarrow> (Inl e, d1)
           | (None, d1) \<Rightarrow>
               (case recv d1 of
                  (Inl e, d2) \<Rightarrow> (Inl e, d2)
                | (Inr reply, d2) \<Rightarrow>
                    (case decode_vector x reply of
                       Inl e \<Rightarrow> (Inl e, d2)
                     | Inr (rc, cnt) \<Rightarrow>
                         if size_t_sub (length reply) cnt \<noteq> 6
                         then (Inl (topaz_exception ''Invalid method status on return''), d2)
                         else if \<not> cnt + 2 < length reply
                         then (Inl out_of_bounds, d2)
                         else if reply ! (cnt + 2) \<noteq> 0
                         then (Inl (topaz_exception ''Method call failed''), d2)
                         else (Inr rc, d2)))))"


text \<open>
  \<open>drive::table_set_bin\<close>. \<open>chunk_size_of\<close> is the estimate before the loop, in unsigned
  64-bit arithmetic. The loop \<open>while (len)\<close> need not terminate, so it takes fuel:
  \<open>None\<close> is "still running when the fuel ran out". \<open>ptr\<close> is the memory from the
  pointer \<open>raw\<close> on, \<open>len\<close> the length the caller passes.
\<close>

definition chunk_size_of :: "64 word \<Rightarrow> 64 word" where
  "chunk_size_of max_pkt =
     ((max_pkt - of_nat sizeof_opal_header - 21 - (2 + 1 + 1 + 8) - (2 + 1 + 4 + 0) - 5 - 3)
        div 4096) * 4096"

definition set_bin_params :: "64 word \<Rightarrow> atom \<Rightarrow> datum" where
  "set_bin_params offset data_atom =
     LIST [NAMED (atom_uint 0 False) (ATOM (atom_uint offset False)),
           NAMED (atom_uint 1 False) (ATOM data_atom)]"

fun table_set_bin_loop ::
  "nat \<Rightarrow> externals \<Rightarrow> drive \<Rightarrow> 64 word \<Rightarrow> 64 word \<Rightarrow> 64 word \<Rightarrow> byte list \<Rightarrow> 64 word
     \<Rightarrow> (failure option \<times> drive) option" where
  "table_set_bin_loop fuel x d tbl_uid chunk_size offset ptr len =
     (if len = 0 then Some (None, d)
      else
        (case fuel of
           0 \<Rightarrow> None
         | Suc fuel' \<Rightarrow>
             (let send_size = (if len > chunk_size then chunk_size else len)
              in case atom_bytes (take (unat send_size) ptr) of
                   Inl e \<Rightarrow> Some (Some e, d)
                 | Inr data_atom \<Rightarrow>
                     (case invoke x d tbl_uid (SET x) (set_bin_params offset data_atom) of
                        (Inl e, d') \<Rightarrow> Some (Some e, d')
                      | (Inr rc, d') \<Rightarrow>
                          table_set_bin_loop fuel' x d' tbl_uid chunk_size
                            (offset + send_size) (drop (unat send_size) ptr) (len - send_size)))))"

declare table_set_bin_loop.simps [simp del]

definition table_set_bin ::
  "nat \<Rightarrow> externals \<Rightarrow> drive \<Rightarrow> 64 word \<Rightarrow> 64 word \<Rightarrow> byte list \<Rightarrow> 64 word
     \<Rightarrow> (failure option \<times> drive) option" where
  "table_set_bin fuel x d tbl_uid offset ptr len =
     table_set_bin_loop fuel x d tbl_uid (chunk_size_of (max_com_pkt_size d)) offset ptr len"

text \<open>
  \<open>drive::send(datum const &)\<close>, the send of the older, datum-based variant of the engine
  (there \<open>sendrecv\<close> replaces \<open>invoke\<close>): the same envelope, with the session check that
  the byte-vector send leaves to its caller. The size and the bytes of the datum come
  from its codec.
\<close>

definition send_datum :: "externals \<Rightarrow> drive \<Rightarrow> datum \<Rightarrow> failure option \<times> drive" where
  "send_datum x d outbuf =
     (case encode_vector x outbuf of
        Inl e \<Rightarrow> (Some e, d)
      | Inr enc \<Rightarrow>
          (let tot_size = tot_size_of (length enc)
           in if tot_size > unat (max_com_pkt_size d)
              then (Some (topaz_exception ''ComPkt too large for drive''), d)
              else if (case outbuf of METHOD obj meth args \<Rightarrow> obj = SESSION_MGR x | _ \<Rightarrow> False)
              then (case if_send (raw d) 1 (ucast (com_id d)) (opal_block d enc False)
                           (of_nat (tot_size div ATA_BLOCK_SIZE)) of
                      (r, raw') \<Rightarrow> (r, d\<lparr>raw := raw'\<rparr>))
              else if host_session_id d = 0
              then (Some (topaz_exception ''Failed send(): No TPer Session''), d)
              else (case if_send (raw d) 1 (ucast (com_id d)) (opal_block d enc True)
                           (of_nat (tot_size div ATA_BLOCK_SIZE)) of
                      (r, raw') \<Rightarrow> (r, d\<lparr>raw := raw'\<rparr>))))"


section \<open>Notions used to state the properties\<close>

text \<open>
  \<open>fit_block data\<close> is the 512-byte buffer after the drive has put \<open>data\<close> into it.
  An answer is "not ready" when it echoes the ComID and its ComPacket length is zero.
  \<open>after_polls k us d\<close> is the handle after \<open>k\<close> calls of \<open>if_recv\<close> for one block each
  and \<open>us\<close> microseconds of sleep.
\<close>

definition fit_block :: "byte list \<Rightarrow> byte list" where
  "fit_block data = take ATA_BLOCK_SIZE (data @ replicate ATA_BLOCK_SIZE 0)"

definition not_ready :: "32 word \<Rightarrow> failure + byte list \<Rightarrow> bool" where
  "not_ready cid resp =
     (case resp of
        Inl e \<Rightarrow> False
      | Inr data \<Rightarrow>
          ucast (hdr_com_id (fit_block data)) = cid \<and> hdr_com_length (fit_block data) = 0)"

definition after_polls :: "nat \<Rightarrow> nat \<Rightarrow> drive \<Rightarrow> drive" where
  "after_polls k us d =
     d\<lparr>raw := (raw d)\<lparr>received := received (raw d) @ replicate k (1, ucast (com_id d), 1)\<rparr>,
       slept_us := slept_us d + us\<rparr>"

text \<open>
  \<open>after_send tr d\<close> is the handle after the calls \<open>tr\<close> of \<open>if_send\<close>. \<open>status_list\<close> is
  the six bytes \<open>invoke\<close> appends to every call. An answer is "accepted" by \<open>invoke\<close> when
  it is ready, its payload lies within the block, the codec decodes it and leaves exactly
  six bytes, and the third of them is zero.
\<close>

definition after_send :: "(byte \<times> 16 word \<times> byte list \<times> byte) list \<Rightarrow> drive \<Rightarrow> drive" where
  "after_send tr d = d\<lparr>raw := (raw d)\<lparr>sent := sent (raw d) @ tr\<rparr>\<rparr>"

definition status_list :: "byte list" where
  "status_list = [TOK_END_OF_DATA, TOK_START_LIST, 0, 0, 0, TOK_END_LIST]"

definition reply_of :: "byte list \<Rightarrow> byte list" where
  "reply_of data =
     take (unat (hdr_sub_length (fit_block data))) (drop sizeof_opal_header (fit_block data))"

definition accepted :: "externals \<Rightarrow> 32 word \<Rightarrow> failure + byte list \<Rightarrow> bool" where
  "accepted x cid resp =
     (case resp of
        Inl e \<Rightarrow> False
      | Inr data \<Rightarrow>
          ucast (hdr_com_id (fit_block data)) = cid
          \<and> hdr_com_length (fit_block data) \<noteq> 0
          \<and> sizeof_opal_header + unat (hdr_sub_length (fit_block data)) \<le> ATA_BLOCK_SIZE
          \<and> (case decode_vector x (reply_of data) of
                Inl e \<Rightarrow> False
              | Inr (rc, cnt) \<Rightarrow>
                  cnt + 6 = length (reply_of data) \<and> reply_of data ! (cnt + 2) = 0))"

text \<open>
  For the chunking of \<open>table_set_bin\<close>. \<open>spec_chunks c data\<close> is the chunking as the
  specification describes it: \<open>data\<close> cut into pieces of \<open>c\<close> bytes, the last piece the
  remainder. \<open>empty_bin\<close> is the atom \<open>atom::new_bin\<close> makes of zero bytes.
  \<open>set_call x d tbl_uid offset chunk\<close> is what the invocation of \<open>Set\<close> with the offset
  \<open>offset\<close> and the data \<open>chunk\<close> transmits (nothing when the atom or the call cannot be
  built), and \<open>set_calls\<close> the transmissions of a sequence of such invocations, each at
  the offset advanced by the bytes of the chunks before it.
\<close>

function spec_chunks :: "nat \<Rightarrow> byte list \<Rightarrow> byte list list" where
  "spec_chunks c data =
     (if c = 0 \<or> data = [] then [] else take c data # spec_chunks c (drop c data))"
  by pat_completeness auto
termination
  by (relation "measure (\<lambda>(c, data). length data)") auto

declare spec_chunks.simps [simp del]

definition empty_bin :: atom where
  "empty_bin = \<lparr>data_type = BYTES, data_enc = SHORT, int_skip = 0, uint_val = 0, bytes = []\<rparr>"

definition set_call ::
  "externals \<Rightarrow> drive \<Rightarrow> 64 word \<Rightarrow> 64 word \<Rightarrow> byte list
     \<Rightarrow> (byte \<times> 16 word \<times> byte list \<times> byte) option" where
  "set_call x d tbl_uid offset chunk =
     (case atom_bytes chunk of
        Inl e \<Rightarrow> None
      | Inr data_atom \<Rightarrow>
          (case encode_vector x
                  (METHOD tbl_uid (SET x) (datum_list (set_bin_params offset data_atom))) of
             Inl e \<Rightarrow> None
           | Inr enc \<Rightarrow> Some (transfer d (enc @ status_list) (tbl_uid \<noteq> SESSION_MGR x))))"

fun set_calls ::
  "externals \<Rightarrow> drive \<Rightarrow> 64 word \<Rightarrow> 64 word \<Rightarrow> byte list list
     \<Rightarrow> (byte \<times> 16 word \<times> byte list \<times> byte) option list" where
  "set_calls x d tbl_uid offset [] = []"
| "set_calls x d tbl_uid offset (c # cs) =
     set_call x d tbl_uid offset c # set_calls x d tbl_uid (offset + of_nat (length c)) cs"

section \<open>A simulated drive and a codec, for the examples\<close>

text \<open>
  Concrete values for the parameters, used where a statement is evaluated at an input. The
  codec is the specification's encoding of data items (an atom delegates; a named value
  is \<open>START_NAME name value END_NAME\<close>; a list is \<open>START_LIST children END_LIST\<close>; a call
  is \<open>CALL uid uid START_LIST args END_LIST\<close>, to which \<open>invoke\<close> appends the status
  list; end of session is \<open>0xFA\<close>; an unset item cannot be encoded) and a decoder for the
  one reply the examples need, the empty list. The UIDs are those of the TCG core
  specification. The simulated link never fails to send and answers every receive as the
  function \<open>dev\<close> says; the drive handle has ComID \<open>0x07FE\<close>.
\<close>

fun example_encode :: "datum \<Rightarrow> byte_vector option" where
  "example_encode UNSET = None"
| "example_encode (ATOM a) = Some (encode_bytes a)"
| "example_encode (NAMED n v) =
     (case example_encode v of
        None \<Rightarrow> None
      | Some bs \<Rightarrow> Some ([0xf2] @ encode_bytes n @ bs @ [0xf3]))"
| "example_encode (LIST xs) =
     (if list_all (\<lambda>y. example_encode y \<noteq> None) xs
      then Some ([0xf0] @ concat (map (\<lambda>y. the (example_encode y)) xs) @ [0xf1])
      else None)"
| "example_encode (METHOD obj meth xs) =
     (if list_all (\<lambda>y. example_encode y \<noteq> None) xs
      then Some ([0xf8] @ encode_bytes (atom_uint obj True) @ encode_bytes (atom_uint meth True)
                 @ [0xf0] @ concat (map (\<lambda>y. the (example_encode y)) xs) @ [0xf1])
      else None)"
| "example_encode END_SESSION = Some [0xfa]"

definition example_decode :: "byte_vector \<Rightarrow> failure + datum \<times> nat" where
  "example_decode bs =
     (if take 2 bs = [0xf0, 0xf1] then Inr (LIST [], 2)
      else Inl (topaz_exception ''Cannot parse datum''))"

definition example_externals :: externals where
  "example_externals =
     \<lparr>encode_vector =
        (\<lambda>y. case example_encode y of
                None \<Rightarrow> Inl (topaz_exception ''Cannot encode unset datum'')
              | Some bs \<Rightarrow> Inr bs),
      decode_vector = example_decode,
      SESSION_MGR = 0x00000000000000ff,
      ADMIN_SP = 0x0000020500000001,
      REVERT = 0x0000000600000202,
      SET = 0x0000000600000017\<rparr>"

definition always :: "byte list \<Rightarrow> nat \<Rightarrow> failure + byte list" where
  "always blk n = Inr blk"

definition no_fault :: "nat \<Rightarrow> failure option" where
  "no_fault n = None"

definition example_link :: "(nat \<Rightarrow> failure + byte list) \<Rightarrow> rawdrive" where
  "example_link dev = \<lparr>sent = [], send_fault = no_fault, received = [], device = dev\<rparr>"

definition example_drive :: "rawdrive \<Rightarrow> 64 word \<Rightarrow> 64 word \<Rightarrow> 64 word \<Rightarrow> drive" where
  "example_drive lnk tper host max_pkt =
     \<lparr>raw = lnk, tper_session_id = tper, host_session_id = host, has_opal1 = False,
      has_opal2 = True, com_id = 0x07fe, lba_align = 1, max_com_pkt_size = max_pkt,
      admin_count = 4, user_count = 8, slept_us = 0\<rparr>"


definition done_block :: "byte list" where
  "done_block = opal_packet 0x07fe 0 0 [0xf0, 0xf1, 0xf9, 0xf0, 0x00, 0x00, 0x00, 0xf1]"

definition denied_block :: "byte list" where
  "denied_block = opal_packet 0x07fe 0 0 [0xf0, 0xf1, 0xf9, 0xf0, 0x01, 0x00, 0x00, 0xf1]"



declare skip_zero.simps [simp del]
declare skip_sign.simps [simp del]

section \<open>Lemmas on bytes and words\<close>

lemma byte_step: "push_bit 8 (drop_bit 8 u) OR ucast (ucast u :: byte) = (u :: 64 word)"
  apply (rule bit_word_eqI)
  apply (simp add: bit_simps)
  apply (case_tac "n < 8")
   apply simp_all
  done

lemma byte_top: "ucast (ucast (drop_bit 56 v) :: byte) = (drop_bit 56 v :: 64 word)"
  apply (rule bit_word_eqI)
  apply (simp add: bit_simps)
  apply (auto dest: bit_imp_le_length)
  done

lemma from_be64_be64: "from_be64 (be64 v) = v"
proof -
  have s: "push_bit 8 (drop_bit (k + 8) v) OR ucast (ucast (drop_bit k v) :: byte) = drop_bit k v" for k
    using byte_step [of "drop_bit k v"] by (simp add: add.commute)
  show ?thesis
    unfolding from_be64_def be64_def
    using s [of 48] s [of 40] s [of 32] s [of 24] s [of 16] s [of 8] s [of 0]
    by (simp add: byte_top)
qed


lemma bit_int_pow: "bit (2 ^ m :: int) n \<longleftrightarrow> n = m"
  by (auto simp add: bit_exp_iff)
lemma bit_int_mask: "bit (mask m :: int) n \<longleftrightarrow> n < m"
  by (auto simp add: bit_mask_iff)

lemma bit_i01: "bit (0x01 :: int) n \<longleftrightarrow> n = 0" using bit_int_pow [of 0 n] by simp
lemma bit_i02: "bit (0x02 :: int) n \<longleftrightarrow> n = 1" using bit_int_pow [of 1 n] by simp
lemma bit_i08: "bit (0x08 :: int) n \<longleftrightarrow> n = 3" using bit_int_pow [of 3 n] by simp
lemma bit_i10: "bit (0x10 :: int) n \<longleftrightarrow> n = 4" using bit_int_pow [of 4 n] by simp
lemma bit_i20: "bit (0x20 :: int) n \<longleftrightarrow> n = 5" using bit_int_pow [of 5 n] by simp
lemma bit_i40: "bit (0x40 :: int) n \<longleftrightarrow> n = 6" using bit_int_pow [of 6 n] by simp
lemma bit_i80: "bit (0x80 :: int) n \<longleftrightarrow> n = 7" using bit_int_pow [of 7 n] by simp
lemma bit_i03: "bit (0x03 :: int) n \<longleftrightarrow> n < 2" using bit_int_mask [of 2 n] by (simp add: mask_numeral)
lemma bit_i07: "bit (0x07 :: int) n \<longleftrightarrow> n < 3" using bit_int_mask [of 3 n] by (simp add: mask_numeral)
lemma bit_i0f: "bit (0x0f :: int) n \<longleftrightarrow> n < 4" using bit_int_mask [of 4 n] by (simp add: mask_numeral)
lemma bit_i3f: "bit (0x3f :: int) n \<longleftrightarrow> n < 6" using bit_int_mask [of 6 n] by (simp add: mask_numeral)
lemmas bit_consts = bit_i01 bit_i02 bit_i08 bit_i10 bit_i20 bit_i40 bit_i80 bit_i03 bit_i07 bit_i0f bit_i3f

lemma byte_lt_80I: "(b :: byte) AND mask 7 = b \<Longrightarrow> b < 0x80"
  using mask_eq_iff_w2p [of 7 b] by (simp add: word_size)

lemma tiny_lt: "(f :: byte) \<in> {0, 0x40} \<Longrightarrow> f OR (0x3f AND x) < 0x80"
  apply (rule byte_lt_80I)
  apply (rule bit_word_eqI)
  apply (auto simp add: bit_simps bit_consts)
  done

lemma tiny_type0: "0x03 AND drop_bit 6 (0 OR (0x3f AND x)) = (0::byte)"
  apply (rule bit_word_eqI)
  apply (auto simp add: bit_simps bit_consts)
  done

lemma tiny_type1: "0x03 AND drop_bit 6 (0x40 OR (0x3f AND x)) = (1::byte)"
  apply (rule bit_word_eqI)
  apply (auto simp add: bit_simps bit_consts)
  done

lemma tiny_val: "(f :: byte) \<in> {0, 0x40} \<Longrightarrow>
   (ucast (0x3f AND (f OR (0x3f AND ucast v))) :: 64 word) = v AND 0x3f"
  apply (rule bit_word_eqI)
  apply (auto simp add: bit_simps bit_consts)
  done

lemma tiny_sign: "(0x40 OR (0x3f AND ucast (v :: 64 word)) :: byte) AND 0x20 \<noteq> 0 \<longleftrightarrow> bit v 5"
proof -
  have "(0x40 OR (0x3f AND ucast v) :: byte) AND 0x20 = (if bit v 5 then 0x20 else 0)"
    apply (rule bit_word_eqI)
    apply (auto simp add: bit_simps bit_consts)
    done
  then show ?thesis by simp
qed

lemma uint_small: "(v :: 64 word) < 0x40 \<Longrightarrow> v AND 0x3f = v"
  using less_mask_eq [of v 6] by (simp add: mask_numeral)

lemma sint_small_bits:
  assumes "- 0x20 \<le>s (v :: 64 word)" "v <s 0x20" "5 \<le> n" "n < 64"
  shows "bit v n = bit v 5"
proof -
  have r: "- (2 ^ 5) \<le> sint v \<and> sint v < 2 ^ 5"
    using assms(1,2) by (simp add: word_sle_eq word_sless_alt)
  then have "signed_take_bit 5 (sint v) = sint v"
    by (simp add: signed_take_bit_int_eq_self_iff)
  then have "bit (sint v) n = bit (signed_take_bit 5 (sint v)) n"
    by simp
  also have "\<dots> = bit (sint v) (min 5 n)"
    by (simp only: bit_signed_take_bit_iff possible_bit_int simp_thms)
  finally show ?thesis using assms(3,4) by (simp add: bit_sint_iff min_def)
qed

lemma tiny_sext:
  assumes "- 0x20 \<le>s (v :: 64 word)" "v <s 0x20"
  shows "(if bit v 5 then (v AND 0x3f) OR NOT 0x3f else v AND 0x3f) = v"
proof (rule bit_word_eqI)
  fix n assume n: "n < LENGTH(64)"
  show "bit (if bit v 5 then (v AND 0x3f) OR NOT 0x3f else v AND 0x3f) n = bit v n"
  proof (cases "n < 6")
    case True
    then show ?thesis by (simp add: bit_simps bit_consts)
  next
    case False
    then have "bit v n = bit v 5" using sint_small_bits [OF assms, of n] n by simp
    with False n show ?thesis by (simp add: bit_simps bit_consts)
  qed
qed

subsection \<open>Header bytes\<close>

lemma len16_cases:
  assumes "len < (16::nat)"
  shows "len = 0 \<or> len = 1 \<or> len = 2 \<or> len = 3 \<or> len = 4 \<or> len = 5 \<or> len = 6 \<or> len = 7
       \<or> len = 8 \<or> len = 9 \<or> len = 10 \<or> len = 11 \<or> len = 12 \<or> len = 13 \<or> len = 14 \<or> len = 15"
  using assms by arith

lemma len8_cases:
  assumes "len < (8::nat)"
  shows "len = 0 \<or> len = 1 \<or> len = 2 \<or> len = 3 \<or> len = 4 \<or> len = 5 \<or> len = 6 \<or> len = 7"
  using assms by arith

lemma decode_set_type_bits: "t \<noteq> EMPTY \<Longrightarrow> decode_set_type (type_bits t) = Inr t"
  by (cases t) (simp_all add: type_bits_def decode_set_type_def)

lemma short_header:
  assumes "len < 16" "t \<noteq> EMPTY"
  defines "d0 \<equiv> SHORT_TOK OR flag (t = BYTES) SHORT_BIN OR flag (t = INTEGER) SHORT_SIGN OR of_nat len"
  shows "d0 \<noteq> EMPTY_TOK \<and> \<not> d0 < SHORT_TOK \<and> d0 < MEDIUM_TOK
         \<and> 0x03 AND drop_bit 4 d0 = type_bits t \<and> unat (d0 AND 0x0f) = len"
  using len16_cases [OF assms(1)] assms(2)
  apply (cases t)
  apply (simp_all add: d0_def tok_defs flag_def type_bits_def)
  by (elim disjE; simp)+

lemma medium_header:
  assumes "hi < 8" "t \<noteq> EMPTY"
  defines "d0 \<equiv> MEDIUM_TOK OR flag (t = BYTES) MEDIUM_BIN OR flag (t = INTEGER) MEDIUM_SIGN OR of_nat hi"
  shows "d0 \<noteq> EMPTY_TOK \<and> \<not> d0 < SHORT_TOK \<and> \<not> d0 < MEDIUM_TOK \<and> d0 < LONG_TOK
         \<and> 0x03 AND drop_bit 3 d0 = type_bits t \<and> unat (0x07 AND d0) = hi"
  using len8_cases [OF assms(1)] assms(2)
  apply (cases t)
  apply (simp_all add: d0_def tok_defs flag_def type_bits_def)
  by (elim disjE; simp)+

lemma long_header:
  assumes "t \<noteq> EMPTY"
  defines "d0 \<equiv> LONG_TOK OR flag (t = BYTES) LONG_BIN OR flag (t = INTEGER) LONG_SIGN"
  shows "d0 \<noteq> EMPTY_TOK \<and> \<not> d0 < SHORT_TOK \<and> \<not> d0 < MEDIUM_TOK \<and> \<not> d0 < LONG_TOK
         \<and> d0 < 0xe4 \<and> 0x03 AND d0 = type_bits t"
  using assms(1)
  by (cases t) (simp_all add: d0_def tok_defs flag_def type_bits_def)

lemma unat_byte_of_nat: "unat (of_nat n :: byte) = n mod 256"
  by (simp add: unat_of_nat)

lemma medium_count: "len < 2048 \<Longrightarrow> (len div 256) * 256 + unat (of_nat len :: byte) = len"
  by (simp add: unat_byte_of_nat)

lemma long_count:
  assumes "len < 16777216"
  shows "(unat (of_nat (len div 65536) :: byte) * 256 + unat (of_nat (len div 256) :: byte)) * 256
           + unat (of_nat len :: byte) = len"
proof -
  define q where "q = len div 256"
  have e: "len div 65536 = q div 256"
    unfolding q_def using div_mult2_eq [of len 256 256] by simp
  have a: "q div 256 < 256" using assms e by simp
  have "q div 256 * 256 + q mod 256 = q" by simp
  moreover have "q * 256 + len mod 256 = len" unfolding q_def by simp
  ultimately have "(q div 256 * 256 + q mod 256) * 256 + len mod 256 = len" by simp
  then show ?thesis using a unfolding e q_def [symmetric] by (simp add: unat_byte_of_nat)
qed

lemma decode_short:
  assumes "len < 16" "t \<noteq> EMPTY"
  shows "decode_bytes self
           ((SHORT_TOK OR flag (t = BYTES) SHORT_BIN OR flag (t = INTEGER) SHORT_SIGN OR of_nat len) # rest)
         = decode_payload (self\<lparr>data_enc := SHORT, data_type := t\<rparr>)
             ((SHORT_TOK OR flag (t = BYTES) SHORT_BIN OR flag (t = INTEGER) SHORT_SIGN OR of_nat len) # rest) 1 len"
  using short_header [OF assms]
  by (simp add: decode_bytes_def decode_check_size_def Let_def decode_set_type_bits [OF assms(2)])

lemma decode_medium:
  assumes "len < 2048" "t \<noteq> EMPTY"
  shows "decode_bytes self
           ((MEDIUM_TOK OR flag (t = BYTES) MEDIUM_BIN OR flag (t = INTEGER) MEDIUM_SIGN OR of_nat (len div 256))
              # of_nat len # rest)
         = decode_payload (self\<lparr>data_enc := MEDIUM, data_type := t\<rparr>)
             ((MEDIUM_TOK OR flag (t = BYTES) MEDIUM_BIN OR flag (t = INTEGER) MEDIUM_SIGN OR of_nat (len div 256))
              # of_nat len # rest) 2 len"
proof -
  have hi: "len div 256 < 8" using assms(1) by simp
  show ?thesis
    using medium_header [OF hi assms(2)] medium_count [OF assms(1)]
    by (simp add: decode_bytes_def decode_check_size_def Let_def decode_set_type_bits [OF assms(2)])
qed

lemma decode_long:
  assumes "len < 16777216" "t \<noteq> EMPTY"
  shows "decode_bytes self
           ((LONG_TOK OR flag (t = BYTES) LONG_BIN OR flag (t = INTEGER) LONG_SIGN)
              # of_nat (len div 65536) # of_nat (len div 256) # of_nat len # rest)
         = decode_payload (self\<lparr>data_enc := LONG, data_type := t\<rparr>)
             ((LONG_TOK OR flag (t = BYTES) LONG_BIN OR flag (t = INTEGER) LONG_SIGN)
              # of_nat (len div 65536) # of_nat (len div 256) # of_nat len # rest) 4 len"
  using long_header [OF assms(2)] long_count [OF assms(1)]
  by (simp add: decode_bytes_def decode_check_size_def Let_def decode_set_type_bits [OF assms(2)])

subsection \<open>Decoding what the encoder wrote\<close>

lemma length_be64 [simp]: "length (be64 v) = 8"
  by (simp add: be64_def)

lemma payload_int:
  assumes t: "t = UINT \<or> t = INTEGER" and k: "k < 8" and hs: "length hdr = hs"
    and fill: "take k (be64 v) =
                 replicate k (if t = INTEGER \<and> be64 v ! k AND 0x80 \<noteq> 0 then 0xff else 0x00)"
  shows "decode_payload (self\<lparr>data_enc := e, data_type := t\<rparr>) (hdr @ drop k (be64 v)) hs (8 - k)
         = Inr (self\<lparr>data_enc := e, data_type := t, int_skip := k, uint_val := v\<rparr>, hs + (8 - k))"
proof -
  have h0: "drop k (be64 v) ! 0 = be64 v ! k" using k by simp
  have "replicate k (if t = INTEGER \<and> be64 v ! k AND 0x80 \<noteq> 0 then 0xff else 0x00)
          @ take (8 - k) (drop k (be64 v)) = be64 v"
    using fill [symmetric] by simp
  then show ?thesis
    using t k hs h0
    by (auto simp add: decode_payload_def decode_check_size_def decode_int_def Let_def from_be64_be64)
qed

lemma payload_bytes:
  assumes hs: "length hdr = hs"
  shows "decode_payload (self\<lparr>data_enc := e, data_type := BYTES\<rparr>) (hdr @ bs) hs (length bs)
         = Inr (self\<lparr>data_enc := e, data_type := BYTES, bytes := bs\<rparr>, hs + length bs)"
  using hs by (simp add: decode_payload_def decode_check_size_def)

lemma decode_empty:
  "decode_bytes self [EMPTY_TOK] = Inr (self\<lparr>data_type := EMPTY, data_enc := NONE\<rparr>, 1)"
  by (simp add: decode_bytes_def decode_check_size_def)

lemma decode_tiny_uint:
  assumes "v < 0x40"
  shows "decode_bytes self [TINY_TOK OR flag False TINY_SIGN OR (0x3f AND ucast v)]
         = Inr (self\<lparr>data_enc := TINY, data_type := UINT, uint_val := v\<rparr>, 1)"
proof -
  let ?d = "0 OR (0x3f AND ucast v) :: byte"
  have lt: "?d < 0x80" using tiny_lt [where f = 0 and x = "ucast v"] by simp
  then have ne: "?d \<noteq> 0xff" by auto
  have ty: "0x03 AND drop_bit 6 ?d = 0" by (rule tiny_type0)
  have va: "(ucast (0x3f AND ?d) :: 64 word) = v"
    using tiny_val [where f = 0 and v = v] uint_small [OF assms] by simp
  show ?thesis
    using lt ne ty va
    by (simp add: decode_bytes_def decode_check_size_def decode_set_type_def Let_def tok_defs flag_def)
qed

lemma decode_tiny_int:
  assumes "- 0x20 \<le>s v" "v <s 0x20"
  shows "decode_bytes self [TINY_TOK OR flag True TINY_SIGN OR (0x3f AND ucast v)]
         = Inr (self\<lparr>data_enc := TINY, data_type := INTEGER, uint_val := v\<rparr>, 1)"
proof -
  let ?d = "0x40 OR (0x3f AND ucast v) :: byte"
  have lt: "?d < 0x80" using tiny_lt [where f = "0x40" and x = "ucast v"] by simp
  then have ne: "?d \<noteq> 0xff" by auto
  have ty: "0x03 AND drop_bit 6 ?d = 1" by (rule tiny_type1)
  have va: "(ucast (0x3f AND ?d) :: 64 word) = v AND 0x3f"
    using tiny_val [where f = "0x40" and v = v] by simp
  have sg: "?d AND 0x20 \<noteq> 0 \<longleftrightarrow> bit v 5" by (rule tiny_sign)
  have sx: "(if bit v 5 then (v AND 0x3f) OR NOT 0x3f else v AND 0x3f) = v"
    by (rule tiny_sext [OF assms])
  show ?thesis
    using lt ne ty va sg sx
    by (simp add: decode_bytes_def decode_check_size_def decode_set_type_def Let_def tok_defs flag_def)
qed

lemma round_trip_empty:
  assumes "atom_wf a" "data_type a = EMPTY"
  shows "decode_bytes self (encode_bytes a) = Inr (self\<lparr>data_type := EMPTY, data_enc := NONE\<rparr>, size_atom a)
         \<and> atom_eq (self\<lparr>data_type := EMPTY, data_enc := NONE\<rparr>) a
         \<and> length (encode_bytes a) = size_atom a"
  using assms
  by (simp add: atom_wf_def encode_bytes_def decode_empty size_atom_def atom_eq_def)

lemma round_trip_bytes:
  assumes "atom_wf a" "data_type a = BYTES"
  shows "decode_bytes self (encode_bytes a)
           = Inr (self\<lparr>data_enc := data_enc a, data_type := BYTES, bytes := bytes a\<rparr>, size_atom a)
         \<and> atom_eq (self\<lparr>data_enc := data_enc a, data_type := BYTES, bytes := bytes a\<rparr>) a
         \<and> length (encode_bytes a) = size_atom a"
proof (cases "data_enc a")
  case SHORT
  then have l: "length (bytes a) < 16" using assms by (simp add: atom_wf_def)
  show ?thesis
    using assms(2) SHORT decode_short [OF l, where t = BYTES and self = self and rest = "bytes a"]
      payload_bytes [where hdr = "[x]" and hs = 1 and self = self and e = SHORT and bs = "bytes a" for x]
    by (simp add: encode_bytes_def size_atom_def get_header_size_def atom_eq_def Let_def)
next
  case MEDIUM
  then have l: "length (bytes a) < 2048" using assms by (simp add: atom_wf_def)
  show ?thesis
    using assms(2) MEDIUM decode_medium [OF l, where t = BYTES and self = self and rest = "bytes a"]
      payload_bytes [where hdr = "[x, y]" and hs = 2 and self = self and e = MEDIUM and bs = "bytes a" for x y]
    by (simp add: encode_bytes_def size_atom_def get_header_size_def atom_eq_def Let_def)
next
  case LONG
  then have l: "length (bytes a) < 16777216" using assms by (simp add: atom_wf_def)
  show ?thesis
    using assms(2) LONG decode_long [OF l, where t = BYTES and self = self and rest = "bytes a"]
      payload_bytes [where hdr = "[x, y, z, w]" and hs = 4 and self = self and e = LONG and bs = "bytes a" for x y z w]
    by (simp add: encode_bytes_def size_atom_def get_header_size_def atom_eq_def Let_def)
qed (use assms in \<open>simp_all add: atom_wf_def\<close>)

lemma round_trip_tiny:
  assumes "atom_wf a" "data_type a = UINT \<or> data_type a = INTEGER" "data_enc a = TINY"
  shows "decode_bytes self (encode_bytes a)
           = Inr (self\<lparr>data_enc := TINY, data_type := data_type a, uint_val := uint_val a\<rparr>, size_atom a)
         \<and> atom_eq (self\<lparr>data_enc := TINY, data_type := data_type a, uint_val := uint_val a\<rparr>) a
         \<and> length (encode_bytes a) = size_atom a"
  using assms(2)
proof
  assume t: "data_type a = UINT"
  then have "uint_val a < 0x40" using assms by (simp add: atom_wf_def)
  from decode_tiny_uint [OF this, where self = self] t assms(3) show ?thesis
    by (simp add: encode_bytes_def size_atom_def atom_eq_def Let_def)
next
  assume t: "data_type a = INTEGER"
  then have "- 0x20 \<le>s uint_val a" "uint_val a <s 0x20" using assms by (simp_all add: atom_wf_def)
  from decode_tiny_int [OF this, where self = self] t assms(3) show ?thesis
    by (simp add: encode_bytes_def size_atom_def atom_eq_def Let_def)
qed

lemma round_trip_int:
  assumes "atom_wf a" "data_type a = UINT \<or> data_type a = INTEGER" "data_enc a \<noteq> TINY"
  shows "decode_bytes self (encode_bytes a)
           = Inr (self\<lparr>data_enc := data_enc a, data_type := data_type a,
                        int_skip := int_skip a, uint_val := uint_val a\<rparr>, size_atom a)
         \<and> atom_eq (self\<lparr>data_enc := data_enc a, data_type := data_type a,
                         int_skip := int_skip a, uint_val := uint_val a\<rparr>) a
         \<and> length (encode_bytes a) = size_atom a"
proof -
  let ?k = "int_skip a" and ?t = "data_type a" and ?v = "uint_val a"
  have ne: "?t \<noteq> EMPTY" using assms(2) by auto
  have k: "?k < 8" and enc: "data_enc a \<noteq> NONE"
    using assms by (auto simp add: atom_wf_def split: enc_t.splits)
  have fill: "take ?k (be64 ?v) =
                replicate ?k (if ?t = INTEGER \<and> be64 ?v ! ?k AND 0x80 \<noteq> 0 then 0xff else 0x00)"
    using assms by (auto simp add: atom_wf_def split: enc_t.splits)
  have l16: "8 - ?k < 16" and l2048: "8 - ?k < 2048" and l24: "8 - ?k < 16777216" by simp_all
  note p = payload_int [OF assms(2) k _ fill]
  show ?thesis
  proof (cases "data_enc a")
    case SHORT
    show ?thesis
      using assms(2) SHORT decode_short [OF l16 ne, where self = self and rest = "drop ?k (be64 ?v)"]
        p [where hdr = "[x]" and hs = 1 and self = self and e = SHORT for x]
      by (auto simp add: encode_bytes_def size_atom_def get_header_size_def atom_eq_def Let_def)
  next
    case MEDIUM
    show ?thesis
      using assms(2) MEDIUM decode_medium [OF l2048 ne, where self = self and rest = "drop ?k (be64 ?v)"]
        p [where hdr = "[x, y]" and hs = 2 and self = self and e = MEDIUM for x y]
      by (auto simp add: encode_bytes_def size_atom_def get_header_size_def atom_eq_def Let_def)
  next
    case LONG
    show ?thesis
      using assms(2) LONG decode_long [OF l24 ne, where self = self and rest = "drop ?k (be64 ?v)"]
        p [where hdr = "[x, y, z, w]" and hs = 4 and self = self and e = LONG for x y z w]
      by (auto simp add: encode_bytes_def size_atom_def get_header_size_def atom_eq_def Let_def)
  qed (use assms(3) enc in simp_all)
qed

subsection \<open>The constructors build well-formed atoms\<close>

lemma skip_zero_spec:
  "j \<le> 8 \<Longrightarrow> j \<le> skip_zero raw8 j \<and> skip_zero raw8 j \<le> 8
     \<and> (\<forall>i. j \<le> i \<and> i < skip_zero raw8 j \<longrightarrow> raw8 ! i = 0)"
proof (induction raw8 j rule: skip_zero.induct)
  case (1 raw8 k)
  show ?case
  proof (cases "k < 8 \<and> raw8 ! k = 0")
    case True
    then have ih: "k + 1 \<le> skip_zero raw8 (k + 1) \<and> skip_zero raw8 (k + 1) \<le> 8
                    \<and> (\<forall>i. k + 1 \<le> i \<and> i < skip_zero raw8 (k + 1) \<longrightarrow> raw8 ! i = 0)"
      using "1.IH" by simp
    have eq: "skip_zero raw8 k = skip_zero raw8 (k + 1)"
      using True by (subst skip_zero.simps) simp
    have "raw8 ! i = 0" if "k \<le> i" "i < skip_zero raw8 (k + 1)" for i
    proof (cases "i = k")
      case True
      then show ?thesis using \<open>k < 8 \<and> raw8 ! k = 0\<close> by simp
    next
      case False
      then have "k + 1 \<le> i" using that(1) by simp
      then show ?thesis using ih that(2) by blast
    qed
    then show ?thesis
      unfolding eq using ih by simp
  next
    case False
    then have "skip_zero raw8 k = k" by (subst skip_zero.simps) auto
    with "1.prems" show ?thesis by auto
  qed
qed

lemma all_bytes_eq:
  assumes "length raw8 = 8" "\<forall>i<8. raw8 ! i = c"
  shows "raw8 = [c, c, c, c, c, c, c, c]"
proof -
  have "raw8 = replicate 8 c" using assms by (simp add: list_eq_iff_nth_eq)
  also have "replicate 8 c = [c, c, c, c, c, c, c, c]"
    by (simp add: numeral_eq_Suc)
  finally show ?thesis .
qed

lemma from_be64_zeros: "from_be64 [0, 0, 0, 0, 0, 0, 0, 0] = 0"
  by (simp add: from_be64_def)

lemma from_be64_ones: "from_be64 [0xff, 0xff, 0xff, 0xff, 0xff, 0xff, 0xff, 0xff] = - 1"
  by (simp add: from_be64_def)

lemma be64_not_zero:
  assumes "v \<noteq> 0"
  shows "be64 v \<noteq> [0, 0, 0, 0, 0, 0, 0, 0]"
proof
  assume "be64 v = [0, 0, 0, 0, 0, 0, 0, 0]"
  then have "from_be64 (be64 v) = 0" by (simp only: from_be64_zeros)
  then show False using assms by (simp add: from_be64_be64)
qed

lemma be64_not_ones:
  assumes "v \<noteq> - 1"
  shows "be64 v \<noteq> [0xff, 0xff, 0xff, 0xff, 0xff, 0xff, 0xff, 0xff]"
proof
  assume "be64 v = [0xff, 0xff, 0xff, 0xff, 0xff, 0xff, 0xff, 0xff]"
  then have "from_be64 (be64 v) = - 1" by (simp only: from_be64_ones)
  then show False using assms by (simp add: from_be64_be64)
qed


lemma atom_wf_default: "atom_wf atom_default"
  by (simp add: atom_wf_def atom_default_def)

lemma atom_wf_bytes: "atom_bytes data = Inr a \<Longrightarrow> atom_wf a"
  by (auto simp add: atom_bytes_def pick_encoding_def atom_wf_def split: if_splits)

lemma atom_wf_uint: "atom_wf (atom_uint val is_uid)"
proof (cases "is_uid \<or> val < 0x40")
  case True
  then show ?thesis by (auto simp add: atom_uint_def atom_wf_def)
next
  case False
  let ?k = "skip_zero (be64 val) 0"
  have s: "?k \<le> 8 \<and> (\<forall>i. i < ?k \<longrightarrow> be64 val ! i = 0)"
    using skip_zero_spec [of 0 "be64 val"] by simp
  have "val \<noteq> 0" using False by auto
  then have "?k \<noteq> 8"
    using s all_bytes_eq [of "be64 val" 0] be64_not_zero [of val] by auto
  then have k: "?k < 8" using s by simp
  have "take ?k (be64 val) = replicate ?k 0"
    using s by (simp add: list_eq_iff_nth_eq)
  with k False show ?thesis by (simp add: atom_uint_def atom_wf_def)
qed

lemma skip_sign_spec:
  "j < 8 \<Longrightarrow>
   (case skip_sign fill hi raw8 j of
      Inr k \<Rightarrow> j \<le> k \<and> k < 8 \<and> (\<forall>i. j \<le> i \<and> i < k \<longrightarrow> raw8 ! i = fill \<and> raw8 ! (i + 1) AND 0x80 = hi)
    | Inl e \<Rightarrow> \<forall>i. j \<le> i \<and> i < 8 \<longrightarrow> raw8 ! i = fill)"
proof (induction fill hi raw8 j rule: skip_sign.induct)
  case (1 fill hi raw8 k)
  show ?case
  proof (cases "raw8 ! k = fill")
    case False
    then have "skip_sign fill hi raw8 k = Inr k" by (subst skip_sign.simps) auto
    then show ?thesis using "1.prems" by auto
  next
    case f: True
    show ?thesis
    proof (cases "k + 1 < 8")
      case False
      then have "skip_sign fill hi raw8 k = Inl out_of_bounds"
        using f "1.prems" by (subst skip_sign.simps) auto
      moreover have "i = k" if "k \<le> i" "i < 8" for i using that False by simp
      ultimately show ?thesis using f by auto
    next
      case n: True
      show ?thesis
      proof (cases "raw8 ! (k + 1) AND 0x80 = hi")
        case False
        then have "skip_sign fill hi raw8 k = Inr k"
          using f n "1.prems" by (subst skip_sign.simps) auto
        then show ?thesis using "1.prems" by auto
      next
        case h: True
        have eq: "skip_sign fill hi raw8 k = skip_sign fill hi raw8 (k + 1)"
          using f n h "1.prems" by (subst skip_sign.simps) auto
        have ih: "case skip_sign fill hi raw8 (k + 1) of
                    Inr k' \<Rightarrow> k + 1 \<le> k' \<and> k' < 8 \<and>
                      (\<forall>i. k + 1 \<le> i \<and> i < k' \<longrightarrow> raw8 ! i = fill \<and> raw8 ! (i + 1) AND 0x80 = hi)
                  | Inl e \<Rightarrow> \<forall>i. k + 1 \<le> i \<and> i < 8 \<longrightarrow> raw8 ! i = fill"
          using "1.IH" f n h "1.prems" by simp
        have step: "k + 1 \<le> i \<or> i = k" if "k \<le> i" for i using that by auto
        show ?thesis
          unfolding eq using ih f h
          by (cases "skip_sign fill hi raw8 (k + 1)") (use step in \<open>auto\<close>)
      qed
    qed
  qed
qed

lemma neg_iff_bit63: "(v :: 64 word) <s 0 \<longleftrightarrow> bit v 63"
  using bit_last_iff [of v] by (simp add: word_sless_alt)

lemma be64_top_sign: "be64 v ! 0 AND 0x80 = (if v <s 0 then 0x80 else 0)"
proof -
  have "(ucast (drop_bit 56 v) :: byte) AND 0x80 = (if bit v 63 then 0x80 else 0)"
    apply (rule bit_word_eqI)
    apply (auto simp add: bit_simps bit_consts)
    done
  then show ?thesis by (simp add: be64_def neg_iff_bit63)
qed

lemma tiny_minus_one: "(- 1 :: 64 word) <s 0x20 \<and> - 0x20 \<le>s (- 1 :: 64 word)"
  by (simp add: word_sless_alt word_sle_eq)

lemma tiny_zero: "(0 :: 64 word) <s 0x20 \<and> - 0x20 \<le>s (0 :: 64 word)"
  by (simp add: word_sless_alt word_sle_eq)

lemma atom_int_total:
  "\<exists>a. atom_int val = Inr a \<and> atom_wf a"
proof (cases "val <s 0x20 \<and> - 0x20 \<le>s val")
  case True
  then show ?thesis by (simp add: atom_int_def atom_wf_def)
next
  case nt: False
  define fill :: byte where "fill = (if val <s 0 then 0xff else 0x00)"
  define hi :: byte where "hi = (if val <s 0 then 0x80 else 0x00)"
  let ?raw8 = "be64 val"
  have top: "?raw8 ! 0 AND 0x80 = hi" by (simp add: be64_top_sign hi_def)
  have spec: "case skip_sign fill hi ?raw8 0 of
                Inr k \<Rightarrow> 0 \<le> k \<and> k < 8 \<and>
                  (\<forall>i. 0 \<le> i \<and> i < k \<longrightarrow> ?raw8 ! i = fill \<and> ?raw8 ! (i + 1) AND 0x80 = hi)
              | Inl e \<Rightarrow> \<forall>i. 0 \<le> i \<and> i < 8 \<longrightarrow> ?raw8 ! i = fill"
    by (rule skip_sign_spec) simp
  have not_all: "\<not> (\<forall>i<8. ?raw8 ! i = fill)"
  proof
    assume "\<forall>i<8. ?raw8 ! i = fill"
    then have all: "?raw8 = [fill, fill, fill, fill, fill, fill, fill, fill]"
      by (intro all_bytes_eq) simp_all
    show False
    proof (cases "val <s 0")
      case True
      then have "val = - 1" using all be64_not_ones [of val] by (auto simp add: fill_def)
      then show False using nt tiny_minus_one by simp
    next
      case False
      then have "val = 0" using all be64_not_zero [of val] by (auto simp add: fill_def)
      then show False using nt tiny_zero by simp
    qed
  qed
  obtain k where k: "skip_sign fill hi ?raw8 0 = Inr k"
    using spec not_all by (cases "skip_sign fill hi ?raw8 0") auto
  have k8: "k < 8" and pre: "\<forall>i<k. ?raw8 ! i = fill \<and> ?raw8 ! (i + 1) AND 0x80 = hi"
    using spec k by simp_all
  have sign_k: "?raw8 ! k AND 0x80 = hi"
  proof (cases k)
    case 0
    then show ?thesis using top by simp
  next
    case (Suc m)
    then show ?thesis using pre by auto
  qed
  have fill_k: "(if ?raw8 ! k AND 0x80 \<noteq> 0 then 0xff else 0x00) = fill"
    unfolding sign_k by (simp add: hi_def fill_def)
  have tk: "take k ?raw8 = replicate k fill"
    using pre k8 by (simp add: list_eq_iff_nth_eq)
  have r: "(if val <s 0 then skip_sign 0xff 0x80 ?raw8 0 else skip_sign 0x00 0x00 ?raw8 0) = Inr k"
    using k by (simp add: fill_def hi_def split: if_splits)
  show ?thesis
    using nt k8 tk fill_k
    by (simp add: atom_int_def r atom_wf_def)
qed


section \<open>The atom codec: round trip, UIDs, tiny integers\<close>

text \<open>
  C1 (atom round trip). For every well-formed atom \<open>a\<close> (empty, unsigned, signed or
  bytes, in its encoding class), decoding the bytes that \<open>encode_bytes\<close> produced, into
  any object \<open>self\<close>, succeeds, consumes exactly \<open>size_atom a\<close> bytes and yields an atom
  equal to \<open>a\<close> under \<open>operator==\<close> (which compares type, encoding class and value);
  and the encoder writes exactly \<open>size_atom a\<close> bytes. Every constructor builds a
  well-formed atom (\<open>atom_wf_default\<close>, \<open>atom_wf_uint\<close>, \<open>atom_int_total\<close>,
  \<open>atom_wf_bytes\<close>), and the signed constructor never reads past its union.
\<close>

theorem atom_round_trip:
  assumes "atom_wf a"
  shows "\<exists>a'. decode_bytes self (encode_bytes a) = Inr (a', size_atom a)
              \<and> atom_eq a' a \<and> length (encode_bytes a) = size_atom a"
proof (cases "data_type a")
  case EMPTY
  with round_trip_empty [OF assms, where self = self] show ?thesis by blast
next
  case BYTES
  with round_trip_bytes [OF assms, where self = self] show ?thesis by blast
next
  case UINT
  then have t: "data_type a = UINT \<or> data_type a = INTEGER" by simp
  show ?thesis
    using round_trip_tiny [OF assms t, where self = self] round_trip_int [OF assms t, where self = self]
    by (cases "data_enc a = TINY") blast+
next
  case INTEGER
  then have t: "data_type a = UINT \<or> data_type a = INTEGER" by simp
  show ?thesis
    using round_trip_tiny [OF assms t, where self = self] round_trip_int [OF assms t, where self = self]
    by (cases "data_enc a = TINY") blast+
qed

theorem atom_round_trip_witness:
  "atom_wf \<lparr>data_type = INTEGER, data_enc = SHORT, int_skip = 6,
             uint_val = 0xFFFFFFFFFFFFFC18, bytes = []\<rparr>
   \<and> (\<exists>a'. decode_bytes atom_default
               (encode_bytes \<lparr>data_type = INTEGER, data_enc = SHORT, int_skip = 6,
                               uint_val = 0xFFFFFFFFFFFFFC18, bytes = []\<rparr>)
             = Inr (a', size_atom \<lparr>data_type = INTEGER, data_enc = SHORT, int_skip = 6,
                                    uint_val = 0xFFFFFFFFFFFFFC18, bytes = []\<rparr>)
           \<and> atom_eq a' \<lparr>data_type = INTEGER, data_enc = SHORT, int_skip = 6,
                           uint_val = 0xFFFFFFFFFFFFFC18, bytes = []\<rparr>
           \<and> length (encode_bytes \<lparr>data_type = INTEGER, data_enc = SHORT, int_skip = 6,
                                      uint_val = 0xFFFFFFFFFFFFFC18, bytes = []\<rparr>)
               = size_atom \<lparr>data_type = INTEGER, data_enc = SHORT, int_skip = 6,
                             uint_val = 0xFFFFFFFFFFFFFC18, bytes = []\<rparr>)"
proof -
  have wf: "atom_wf \<lparr>data_type = INTEGER, data_enc = SHORT, int_skip = 6,
                      uint_val = 0xFFFFFFFFFFFFFC18, bytes = []\<rparr>"
    by code_simp
  from atom_round_trip [OF wf, where self = atom_default] wf show ?thesis by blast
qed

text \<open>
  C2 (UID distinction). For every 64-bit value \<open>V\<close>, the atom built as a UID from \<open>V\<close>
  is a bytes atom in short encoding whose eight bytes are \<open>V\<close> most significant first;
  it encodes as \<open>0xA8\<close> followed by those bytes (for \<open>V = 0x0000000600000000\<close> the nine
  bytes \<open>A8 00 00 00 06 00 00 00 00\<close>), decodes back to a bytes atom of length 8 in short
  encoding, \<open>get_uid\<close> returns exactly \<open>V\<close> on it, and \<open>get_uint\<close> throws.
\<close>

theorem uid_distinction:
  "data_type (atom_uint V True) = BYTES
   \<and> data_enc (atom_uint V True) = SHORT
   \<and> bytes (atom_uint V True) = be64 V
   \<and> length (bytes (atom_uint V True)) = 8
   \<and> encode_bytes (atom_uint V True) = 0xA8 # be64 V
   \<and> encode_bytes (atom_uint 0x0000000600000000 True)
       = [0xA8, 0x00, 0x00, 0x00, 0x06, 0x00, 0x00, 0x00, 0x00]
   \<and> decode_bytes self (encode_bytes (atom_uint V True))
       = Inr (self\<lparr>data_enc := SHORT, data_type := BYTES, bytes := be64 V\<rparr>, 9)
   \<and> get_uid (self\<lparr>data_enc := SHORT, data_type := BYTES, bytes := be64 V\<rparr>) = Inr V
   \<and> get_uid (atom_uint V True) = Inr V
   \<and> get_uint (atom_uint V True) = Inl (topaz_exception ''Atom is not unsigned integer'')"
proof -
  have wf: "atom_wf (atom_uint V True)" by (rule atom_wf_uint)
  have ty: "data_type (atom_uint V True) = BYTES" by (simp add: atom_uint_def)
  have dec: "decode_bytes self (encode_bytes (atom_uint V True))
             = Inr (self\<lparr>data_enc := SHORT, data_type := BYTES, bytes := be64 V\<rparr>, 9)"
    using round_trip_bytes [OF wf ty, where self = self]
    by (simp add: atom_uint_def size_atom_def get_header_size_def)
  have six: "encode_bytes (atom_uint 0x0000000600000000 True)
             = [0xA8, 0x00, 0x00, 0x00, 0x06, 0x00, 0x00, 0x00, 0x00]"
    by (simp add: encode_bytes_def atom_uint_def tok_defs flag_def be64_def)
  have enc: "encode_bytes (atom_uint V True) = 0xA8 # be64 V"
    by (simp add: encode_bytes_def atom_uint_def tok_defs flag_def)
  show ?thesis
    using dec six enc
    by (simp add: atom_uint_def get_uid_def get_uint_def from_be64_be64)
qed

theorem uid_distinction_witness:
  "get_uid (atom_uint 0x0000000600000000 True) = Inr 0x0000000600000000
   \<and> get_uint (atom_uint 0x0000000600000000 True)
       = Inl (topaz_exception ''Atom is not unsigned integer'')
   \<and> encode_bytes (atom_uint 0x0000000600000000 True)
       = [0xA8, 0x00, 0x00, 0x00, 0x06, 0x00, 0x00, 0x00, 0x00]"
  using uid_distinction [of "0x0000000600000000" atom_default] by blast

text \<open>
  C3 (tiny integers), as the specification states it: \<open>Uint(5)\<close> encodes as \<open>0x05\<close>,
  \<open>Int(-1)\<close> as \<open>0x3F\<close> and \<open>Int(-32)\<close> as \<open>0x20\<close>. The encoder sets the sign flag
  \<open>TINY_SIGN\<close> (bit 6) on every signed tiny atom, so the two signed encodings are not
  the ones stated: the signed atom \<open>-1\<close> does not encode as \<open>0x3F\<close>.
\<close>

theorem tiny_int_counterexample:
  "atom_int (- 1) = Inr \<lparr>data_type = INTEGER, data_enc = TINY, int_skip = 0,
                          uint_val = - 1, bytes = []\<rparr>
   \<and> encode_bytes \<lparr>data_type = INTEGER, data_enc = TINY, int_skip = 0,
                     uint_val = - 1, bytes = []\<rparr> \<noteq> [0x3F]"
  by code_simp

text \<open>
  C3 as the code has it: \<open>Uint(5)\<close> encodes as the single byte \<open>0x05\<close>, the signed atom
  \<open>-1\<close> as the single byte \<open>0x7F\<close> and the signed atom \<open>-32\<close> as the single byte
  \<open>0x60\<close> (the sign flag \<open>0x40\<close> or-ed with the low six bits of the value). The bytes
  \<open>0x3F\<close> and \<open>0x20\<close> decode as the unsigned atoms 63 and 32.
\<close>

theorem tiny_int_encodings:
  "encode_bytes (atom_uint 5 False) = [0x05]
   \<and> atom_int (- 1) = Inr \<lparr>data_type = INTEGER, data_enc = TINY, int_skip = 0,
                            uint_val = - 1, bytes = []\<rparr>
   \<and> encode_bytes \<lparr>data_type = INTEGER, data_enc = TINY, int_skip = 0,
                     uint_val = - 1, bytes = []\<rparr> = [0x7F]
   \<and> atom_int (- 32) = Inr \<lparr>data_type = INTEGER, data_enc = TINY, int_skip = 0,
                             uint_val = - 32, bytes = []\<rparr>
   \<and> encode_bytes \<lparr>data_type = INTEGER, data_enc = TINY, int_skip = 0,
                     uint_val = - 32, bytes = []\<rparr> = [0x60]
   \<and> decode_bytes atom_default [0x3F]
       = Inr (atom_default\<lparr>data_enc := TINY, data_type := UINT, uint_val := 63\<rparr>, 1)
   \<and> decode_bytes atom_default [0x20]
       = Inr (atom_default\<lparr>data_enc := TINY, data_type := UINT, uint_val := 32\<rparr>, 1)"
  by code_simp

section \<open>The envelope: sizes, header fields and the send\<close>

lemma byte_step32: "push_bit 8 (drop_bit 8 u) OR ucast (ucast u :: byte) = (u :: 32 word)"
  apply (rule bit_word_eqI)
  apply (simp add: bit_simps)
  apply (case_tac "n < 8")
   apply simp_all
  done

lemma byte_step16: "push_bit 8 (drop_bit 8 u) OR ucast (ucast u :: byte) = (u :: 16 word)"
  apply (rule bit_word_eqI)
  apply (simp add: bit_simps)
  apply (case_tac "n < 8")
   apply simp_all
  done

lemma byte_top32: "ucast (ucast (drop_bit 24 v) :: byte) = (drop_bit 24 v :: 32 word)"
  apply (rule bit_word_eqI)
  apply (simp add: bit_simps)
  apply (auto dest: bit_imp_le_length)
  done

lemma byte_top16: "ucast (ucast (drop_bit 8 v) :: byte) = (drop_bit 8 v :: 16 word)"
  apply (rule bit_word_eqI)
  apply (simp add: bit_simps)
  apply (auto dest: bit_imp_le_length)
  done

lemma from_be32_be32: "from_be32 (be32 v) = v"
proof -
  have s: "push_bit 8 (drop_bit (k + 8) v) OR ucast (ucast (drop_bit k v) :: byte) = drop_bit k v" for k
    using byte_step32 [of "drop_bit k v"] by (simp add: add.commute)
  show ?thesis
    unfolding from_be32_def be32_def
    using s [of 16] s [of 8] s [of 0]
    by (simp add: byte_top32)
qed

lemma from_be16_be16: "from_be16 (be16 v) = v"
proof -
  have s: "push_bit 8 (drop_bit (k + 8) v) OR ucast (ucast (drop_bit k v) :: byte) = drop_bit k v" for k
    using byte_step16 [of "drop_bit k v"] by (simp add: add.commute)
  show ?thesis
    unfolding from_be16_def be16_def
    using s [of 0]
    by (simp add: byte_top16)
qed

lemma length_be32 [simp]: "length (be32 v) = 4" by (simp add: be32_def)
lemma length_be16 [simp]: "length (be16 v) = 2" by (simp add: be16_def)

lemma length_com_packet_header [simp]: "length (com_packet_header cid len) = 20"
  by (simp add: com_packet_header_def)
lemma length_packet_header [simp]: "length (packet_header t h len) = 24"
  by (simp add: packet_header_def)
lemma length_sub_packet_header [simp]: "length (sub_packet_header len) = 12"
  by (simp add: sub_packet_header_def)

lemma pad_ge: "0 < m \<Longrightarrow> v \<le> PAD_TO_MULTIPLE v m"
proof -
  assume m: "0 < m"
  have "v + (m - 1) < ((v + (m - 1)) div m) * m + m"
    using m by (metis div_mult_mod_eq add_less_cancel_left mod_less_divisor)
  then show ?thesis using m by (simp add: PAD_TO_MULTIPLE_def)
qed

lemma pad_dvd: "m dvd PAD_TO_MULTIPLE v m"
  by (simp add: PAD_TO_MULTIPLE_def)

lemma pad_lt: "0 < m \<Longrightarrow> PAD_TO_MULTIPLE v m < v + m"
proof -
  assume m: "0 < m"
  have "((v + (m - 1)) div m) * m \<le> v + (m - 1)" by simp
  also have "v + (m - 1) < v + m" using m by simp
  finally show ?thesis unfolding PAD_TO_MULTIPLE_def .
qed

lemma tot_size_ge: "sizeof_opal_header + n \<le> tot_size_of n"
proof -
  have a: "n + 12 \<le> pkt_size_of n"
    using pad_ge [of 4 "n + 12"] by (simp add: pkt_size_of_def sizeof_sub_packet_header_def)
  have "com_size_of n + 20 \<le> tot_size_of n"
    using pad_ge [of 512 "com_size_of n + 20"]
    by (simp add: tot_size_of_def sizeof_com_packet_header_def ATA_BLOCK_SIZE_def)
  then show ?thesis using a
    by (simp add: com_size_of_def sizeof_opal_header_def sizeof_com_packet_header_def
        sizeof_packet_header_def sizeof_sub_packet_header_def)
qed

lemma length_opal_packet: "length (opal_packet cid t h outbuf) = tot_size_of (length outbuf)"
  using tot_size_ge [of "length outbuf"]
  by (simp add: opal_packet_def Let_def sizeof_opal_header_def sizeof_com_packet_header_def
      sizeof_packet_header_def sizeof_sub_packet_header_def)

lemma opal_packet_fields:
  "hdr_com_id (opal_packet cid t h outbuf) = cid"
  "hdr_com_length (opal_packet cid t h outbuf) = of_nat (com_size_of (length outbuf))"
  "hdr_tper_session_id (opal_packet cid t h outbuf) = t"
  "hdr_host_session_id (opal_packet cid t h outbuf) = h"
  "hdr_pkt_length (opal_packet cid t h outbuf) = of_nat (pkt_size_of (length outbuf))"
  "hdr_sub_length (opal_packet cid t h outbuf) = of_nat (length outbuf)"
  by (simp_all add: opal_packet_def Let_def hdr_com_id_def hdr_com_length_def
      hdr_tper_session_id_def hdr_host_session_id_def hdr_pkt_length_def hdr_sub_length_def
      com_packet_header_def packet_header_def sub_packet_header_def
      from_be32_be32 from_be16_be16)

lemma opal_packet_payload:
  "take (length outbuf) (drop sizeof_opal_header (opal_packet cid t h outbuf)) = outbuf"
  by (simp add: opal_packet_def Let_def sizeof_opal_header_def sizeof_com_packet_header_def
      sizeof_packet_header_def sizeof_sub_packet_header_def)

lemma length_opal_block: "length (opal_block d outbuf s) = tot_size_of (length outbuf)"
  by (simp add: opal_block_def length_opal_packet)

lemma send_oversize:
  "unat (max_com_pkt_size d) < tot_size_of (length outbuf) \<Longrightarrow>
   send d outbuf s = (Some (topaz_exception ''ComPkt too large for drive''), d)"
  by (simp add: send_def Let_def)

lemma send_fits:
  "tot_size_of (length outbuf) \<le> unat (max_com_pkt_size d) \<Longrightarrow>
   send d outbuf s =
     (send_fault (raw d) (length (sent (raw d))),
      d\<lparr>raw := (raw d)\<lparr>sent := sent (raw d) @ [transfer d outbuf s]\<rparr>\<rparr>)"
  by (simp add: send_def Let_def if_send_def transfer_def)

lemma small_sizes:
  assumes "tot_size_of n div ATA_BLOCK_SIZE < 256"
  shows "n < 2 ^ 32" "pkt_size_of n < 2 ^ 32" "com_size_of n < 2 ^ 32" "tot_size_of n < 131072"
    "ATA_BLOCK_SIZE * (tot_size_of n div ATA_BLOCK_SIZE) = tot_size_of n"
proof -
  have dv: "ATA_BLOCK_SIZE dvd tot_size_of n" by (simp add: tot_size_of_def pad_dvd)
  then show e: "ATA_BLOCK_SIZE * (tot_size_of n div ATA_BLOCK_SIZE) = tot_size_of n" by simp
  have "ATA_BLOCK_SIZE * (tot_size_of n div ATA_BLOCK_SIZE) < ATA_BLOCK_SIZE * 256"
    using assms by (simp add: ATA_BLOCK_SIZE_def)
  then show t: "tot_size_of n < 131072" unfolding e by (simp add: ATA_BLOCK_SIZE_def)
  have c: "com_size_of n + 20 \<le> tot_size_of n"
    using pad_ge [of 512 "com_size_of n + 20"]
    by (simp add: tot_size_of_def sizeof_com_packet_header_def ATA_BLOCK_SIZE_def)
  have p: "n + 12 \<le> pkt_size_of n"
    using pad_ge [of 4 "n + 12"] by (simp add: pkt_size_of_def sizeof_sub_packet_header_def)
  have q: "com_size_of n = pkt_size_of n + 24"
    by (simp add: com_size_of_def sizeof_packet_header_def)
  show "com_size_of n < 2 ^ 32" using c t by simp
  show "pkt_size_of n < 2 ^ 32" using c t q by simp
  show "n < 2 ^ 32" using c t q p by simp
qed

lemma unat_of_nat32: "n < 2 ^ 32 \<Longrightarrow> unat (of_nat n :: 32 word) = n"
  by (simp add: unat_of_nat)

lemma unat_of_nat8: "n < 256 \<Longrightarrow> unat (of_nat n :: byte) = n"
  by (simp add: unat_of_nat)


text \<open>
  C6 (envelope length law), as the specification states it: for every outgoing payload
  the transmitted size is the padded total. The block count reaches \<open>if_send\<close> through
  a \<open>uint8_t\<close>: a payload of 131016 bytes has the padded total 131072 = 256 blocks,
  which a drive with \<open>max_com_pkt_size = 131072\<close> accepts, and \<open>if_send\<close> is called with
  block count 0 and transfers nothing.
\<close>

theorem envelope_length_counterexample:
  "tot_size_of (length (replicate 131016 (0 :: byte))) = 131072
   \<and> fst (send (example_drive (example_link (always done_block)) 5 7 131072)
             (replicate 131016 0) True) = None
   \<and> sent (raw (snd (send (example_drive (example_link (always done_block)) 5 7 131072)
                        (replicate 131016 0) True)))
       = [(1, 0x07fe, [], 0)]"
proof -
  have t: "tot_size_of (length (replicate 131016 (0 :: byte))) = 131072"
    by (simp add: tot_size_of_def com_size_of_def pkt_size_of_def PAD_TO_MULTIPLE_def
        sizeof_sub_packet_header_def sizeof_packet_header_def sizeof_com_packet_header_def
        ATA_BLOCK_SIZE_def)
  have m: "tot_size_of (length (replicate 131016 (0 :: byte)))
           \<le> unat (max_com_pkt_size (example_drive (example_link (always done_block)) 5 7 131072))"
    unfolding t by (simp add: example_drive_def)
  show ?thesis
    using t send_fits [OF m, of True]
    by (simp add: transfer_def example_drive_def example_link_def no_fault_def ATA_BLOCK_SIZE_def)
qed


text \<open>
  C6 as the code has it. The total is the header sizes and the payload padded to 4, padded
  to 512. The send fails with "ComPkt too large for drive" and calls \<open>if_send\<close> not at
  all exactly when the total exceeds \<open>max_com_pkt_size\<close>. Otherwise, when the total is at
  most 255 blocks (the range of the transport's block count), \<open>if_send\<close> is called once
  with the whole block: its size is the total, and the length field of each header holds
  the size of what follows that header (payload; sub-packet header and payload padded to
  4; packet header and that).
\<close>

theorem envelope_length_law:
  "tot_size_of (length outbuf) =
     PAD_TO_MULTIPLE
       (sizeof_com_packet_header + sizeof_packet_header
        + PAD_TO_MULTIPLE (sizeof_sub_packet_header + length outbuf) 4) ATA_BLOCK_SIZE
   \<and> ((fst (send d outbuf s) = Some (topaz_exception ''ComPkt too large for drive'')
        \<and> sent (raw (snd (send d outbuf s))) = sent (raw d))
       \<longleftrightarrow> unat (max_com_pkt_size d) < tot_size_of (length outbuf))
   \<and> (tot_size_of (length outbuf) \<le> unat (max_com_pkt_size d)
        \<and> tot_size_of (length outbuf) div ATA_BLOCK_SIZE < 256 \<longrightarrow>
       sent (raw (snd (send d outbuf s)))
         = sent (raw d) @ [(1, ucast (com_id d), opal_block d outbuf s,
                            of_nat (tot_size_of (length outbuf) div ATA_BLOCK_SIZE))]
       \<and> length (opal_block d outbuf s) = tot_size_of (length outbuf)
       \<and> unat (hdr_sub_length (opal_block d outbuf s)) = length outbuf
       \<and> unat (hdr_pkt_length (opal_block d outbuf s))
           = PAD_TO_MULTIPLE (sizeof_sub_packet_header + length outbuf) 4
       \<and> unat (hdr_com_length (opal_block d outbuf s))
           = sizeof_packet_header + PAD_TO_MULTIPLE (sizeof_sub_packet_header + length outbuf) 4)"
proof (intro conjI impI)
  show "tot_size_of (length outbuf) =
     PAD_TO_MULTIPLE
       (sizeof_com_packet_header + sizeof_packet_header
        + PAD_TO_MULTIPLE (sizeof_sub_packet_header + length outbuf) 4) ATA_BLOCK_SIZE"
    by (simp add: tot_size_of_def com_size_of_def pkt_size_of_def ac_simps)
next
  show "(fst (send d outbuf s) = Some (topaz_exception ''ComPkt too large for drive'')
        \<and> sent (raw (snd (send d outbuf s))) = sent (raw d))
       \<longleftrightarrow> unat (max_com_pkt_size d) < tot_size_of (length outbuf)"
  proof (cases "unat (max_com_pkt_size d) < tot_size_of (length outbuf)")
    case True
    then show ?thesis by (simp add: send_oversize)
  next
    case False
    then have "tot_size_of (length outbuf) \<le> unat (max_com_pkt_size d)" by simp
    from send_fits [OF this] False show ?thesis by simp
  qed
next
  assume a: "tot_size_of (length outbuf) \<le> unat (max_com_pkt_size d)
             \<and> tot_size_of (length outbuf) div ATA_BLOCK_SIZE < 256"
  note sm = small_sizes [OF conjunct2 [OF a]]
  have bc: "unat (of_nat (tot_size_of (length outbuf) div ATA_BLOCK_SIZE) :: byte) * ATA_BLOCK_SIZE
            = tot_size_of (length outbuf)"
    using a sm(5) by (simp add: unat_of_nat8 mult.commute)
  show "sent (raw (snd (send d outbuf s)))
         = sent (raw d) @ [(1, ucast (com_id d), opal_block d outbuf s,
                            of_nat (tot_size_of (length outbuf) div ATA_BLOCK_SIZE))]"
    using send_fits [OF conjunct1 [OF a]] bc
    by (simp add: transfer_def length_opal_block)
  show "length (opal_block d outbuf s) = tot_size_of (length outbuf)"
    by (rule length_opal_block)
  have u1: "unat (of_nat (length outbuf) :: 32 word) = length outbuf"
    using sm(1) by (rule unat_of_nat32)
  have u2: "unat (of_nat (pkt_size_of (length outbuf)) :: 32 word) = pkt_size_of (length outbuf)"
    using sm(2) by (rule unat_of_nat32)
  have u3: "unat (of_nat (com_size_of (length outbuf)) :: 32 word) = com_size_of (length outbuf)"
    using sm(3) by (rule unat_of_nat32)
  show "unat (hdr_sub_length (opal_block d outbuf s)) = length outbuf"
    unfolding opal_block_def opal_packet_fields u1 ..
  show "unat (hdr_pkt_length (opal_block d outbuf s))
           = PAD_TO_MULTIPLE (sizeof_sub_packet_header + length outbuf) 4"
    unfolding opal_block_def opal_packet_fields u2 by (simp add: pkt_size_of_def ac_simps)
  show "unat (hdr_com_length (opal_block d outbuf s))
           = sizeof_packet_header + PAD_TO_MULTIPLE (sizeof_sub_packet_header + length outbuf) 4"
    unfolding opal_block_def opal_packet_fields u3
    by (simp add: com_size_of_def pkt_size_of_def ac_simps)
qed


theorem envelope_length_law_witness:
  "tot_size_of (length [0xfa :: byte]) \<le> unat (max_com_pkt_size (example_drive (example_link (always done_block)) 5 7 512))
   \<and> tot_size_of (length [0xfa :: byte]) div ATA_BLOCK_SIZE < 256
   \<and> sent (raw (snd (send (example_drive (example_link (always done_block)) 5 7 512) [0xfa] True)))
       = [(1, 0x07fe, opal_block (example_drive (example_link (always done_block)) 5 7 512) [0xfa] True, 1)]
   \<and> length (opal_block (example_drive (example_link (always done_block)) 5 7 512) [0xfa] True) = 512
   \<and> unat (hdr_sub_length (opal_block (example_drive (example_link (always done_block)) 5 7 512) [0xfa] True)) = 1
   \<and> unat (hdr_pkt_length (opal_block (example_drive (example_link (always done_block)) 5 7 512) [0xfa] True)) = 16
   \<and> unat (hdr_com_length (opal_block (example_drive (example_link (always done_block)) 5 7 512) [0xfa] True)) = 40"
proof -
  have t: "tot_size_of (length [0xfa :: byte]) = 512"
    by (simp add: tot_size_of_def com_size_of_def pkt_size_of_def PAD_TO_MULTIPLE_def
        sizeof_sub_packet_header_def sizeof_packet_header_def sizeof_com_packet_header_def
        ATA_BLOCK_SIZE_def)
  have p: "PAD_TO_MULTIPLE (sizeof_sub_packet_header + length [0xfa :: byte]) 4 = 16"
    by (simp add: PAD_TO_MULTIPLE_def sizeof_sub_packet_header_def)
  show ?thesis
    using envelope_length_law [of "[0xfa]" "example_drive (example_link (always done_block)) 5 7 512" True]
    unfolding t p
    by (simp add: example_drive_def example_link_def ATA_BLOCK_SIZE_def sizeof_packet_header_def)
qed

section \<open>Receiving: the polling loop\<close>

lemma if_recv_one:
  "if_recv r 1 cid 1 =
     (case device r (length (received r)) of Inl e \<Rightarrow> Inl e | Inr data \<Rightarrow> Inr (fit_block data),
      r\<lparr>received := received r @ [(1, cid, 1)]\<rparr>)"
  by (simp add: if_recv_def fit_block_def split: sum.splits)

lemma after_polls_0 [simp]: "after_polls 0 0 d = d"
  by (simp add: after_polls_def)

lemma after_polls_fields [simp]:
  "com_id (after_polls k us d) = com_id d"
  "tper_session_id (after_polls k us d) = tper_session_id d"
  "host_session_id (after_polls k us d) = host_session_id d"
  "max_com_pkt_size (after_polls k us d) = max_com_pkt_size d"
  "slept_us (after_polls k us d) = slept_us d + us"
  "sent (raw (after_polls k us d)) = sent (raw d)"
  "send_fault (raw (after_polls k us d)) = send_fault (raw d)"
  "device (raw (after_polls k us d)) = device (raw d)"
  "received (raw (after_polls k us d)) = received (raw d) @ replicate k (1, ucast (com_id d), 1)"
  by (simp_all add: after_polls_def)

lemma after_polls_after_polls:
  "after_polls k us (after_polls j vs d) = after_polls (j + k) (vs + us) d"
  by (simp add: after_polls_def replicate_add)

lemma recv_poll_fail:
  assumes "device (raw d) (length (received (raw d))) = Inl e"
  shows "recv_poll m d = (Inl e, after_polls 1 0 d)"
  using assms by (subst recv_poll.simps) (simp add: if_recv_one after_polls_def)

lemma recv_poll_mismatch:
  assumes "device (raw d) (length (received (raw d))) = Inr data"
    and "ucast (hdr_com_id (fit_block data)) \<noteq> com_id d"
  shows "recv_poll m d =
           (Inl (topaz_exception ''Unexpected ComID in drive response''), after_polls 1 0 d)"
  using assms by (subst recv_poll.simps) (simp add: if_recv_one after_polls_def)

lemma recv_poll_ready:
  assumes "device (raw d) (length (received (raw d))) = Inr data"
    and "ucast (hdr_com_id (fit_block data)) = com_id d"
    and "hdr_com_length (fit_block data) \<noteq> 0"
  shows "recv_poll m d = (Inr (fit_block data, m), after_polls 1 0 d)"
  using assms by (subst recv_poll.simps) (simp add: if_recv_one after_polls_def)

lemma recv_poll_busy_more:
  assumes "not_ready (com_id d) (device (raw d) (length (received (raw d))))" and "1 < m"
  shows "recv_poll m d = recv_poll (m - 1) (after_polls 1 (POLL_MS * 1000) d)"
  using assms
  by (subst recv_poll.simps)
     (auto simp add: if_recv_one after_polls_def not_ready_def split: sum.splits)

lemma recv_poll_busy_last:
  assumes "device (raw d) (length (received (raw d))) = Inr data"
    and "not_ready (com_id d) (Inr data)" and "m \<le> 1"
  shows "recv_poll m d = (Inr (fit_block data, m - 1), after_polls 1 (POLL_MS * 1000) d)"
  using assms
  by (subst recv_poll.simps)
     (auto simp add: if_recv_one after_polls_def not_ready_def split: sum.splits)

lemma recv_poll_busy_run:
  "(\<forall>k<n. not_ready (com_id d) (device (raw d) (length (received (raw d)) + k))) \<Longrightarrow>
   int n < m \<Longrightarrow>
   recv_poll m d = recv_poll (m - int n) (after_polls n (n * (POLL_MS * 1000)) d)"
proof (induction n arbitrary: d m)
  case 0
  then show ?case by simp
next
  case (Suc n)
  have first: "not_ready (com_id d) (device (raw d) (length (received (raw d))))"
    using Suc.prems(1) by (metis add.right_neutral zero_less_Suc)
  have m: "1 < m" using Suc.prems(2) by simp
  let ?d = "after_polls 1 (POLL_MS * 1000) d"
  have rest: "\<forall>k<n. not_ready (com_id ?d) (device (raw ?d) (length (received (raw ?d)) + k))"
    using Suc.prems(1) by (auto simp add: add.commute add.left_commute)
  have "recv_poll m d = recv_poll (m - 1) ?d"
    by (rule recv_poll_busy_more [OF first m])
  also have "\<dots> = recv_poll (m - 1 - int n) (after_polls n (n * (POLL_MS * 1000)) ?d)"
    using Suc.IH [OF rest] Suc.prems(2) by simp
  finally show ?case
    by (simp add: after_polls_after_polls algebra_simps)
qed

lemma recv_poll_bound:
  "\<exists>k us. 1 \<le> k \<and> int k \<le> max 1 m \<and> us \<le> k * (POLL_MS * 1000)
          \<and> snd (recv_poll m d) = after_polls k us d"
proof (induction "nat m" arbitrary: m d rule: less_induct)
  case less
  show ?case
  proof (cases "device (raw d) (length (received (raw d)))")
    case (Inl e)
    have "snd (recv_poll m d) = after_polls 1 0 d" by (simp add: recv_poll_fail [OF Inl])
    then show ?thesis by (intro exI [of _ 1] exI [of _ 0]) simp
  next
    case (Inr data)
    show ?thesis
    proof (cases "ucast (hdr_com_id (fit_block data)) = com_id d")
      case False
      have "snd (recv_poll m d) = after_polls 1 0 d"
        by (simp add: recv_poll_mismatch [OF Inr False])
      then show ?thesis by (intro exI [of _ 1] exI [of _ 0]) simp
    next
      case cid: True
      show ?thesis
      proof (cases "hdr_com_length (fit_block data) = 0")
        case False
        have "snd (recv_poll m d) = after_polls 1 0 d"
          by (simp add: recv_poll_ready [OF Inr cid False])
        then show ?thesis by (intro exI [of _ 1] exI [of _ 0]) simp
      next
        case True
        then have nr: "not_ready (com_id d) (Inr data)" using cid by (simp add: not_ready_def)
        show ?thesis
        proof (cases "1 < m")
          case False
          then have "m \<le> 1" by simp
          from recv_poll_busy_last [OF Inr nr this]
          have "snd (recv_poll m d) = after_polls 1 (POLL_MS * 1000) d" by simp
          then show ?thesis by (intro exI [of _ 1] exI [of _ "POLL_MS * 1000"]) simp
        next
          case m: True
          let ?d = "after_polls 1 (POLL_MS * 1000) d"
          have nr': "not_ready (com_id d) (device (raw d) (length (received (raw d))))"
            using nr Inr by simp
          have step: "recv_poll m d = recv_poll (m - 1) ?d"
            by (rule recv_poll_busy_more [OF nr' m])
          have "nat (m - 1) < nat m" using m by simp
          from less [OF this, of ?d]
          obtain k us where k: "1 \<le> k" "int k \<le> max 1 (m - 1)" "us \<le> k * (POLL_MS * 1000)"
            and e: "snd (recv_poll (m - 1) ?d) = after_polls k us ?d" by blast
          have "snd (recv_poll m d) = after_polls (1 + k) (POLL_MS * 1000 + us) d"
            unfolding step e by (simp add: after_polls_after_polls)
          moreover have "int (1 + k) \<le> max 1 m" using k(2) m by simp
          moreover have "POLL_MS * 1000 + us \<le> (1 + k) * (POLL_MS * 1000)" using k(3) by simp
          ultimately show ?thesis
            by (intro exI [of _ "1 + k"] exI [of _ "POLL_MS * 1000 + us"]) simp
        qed
      qed
    qed
  qed
qed

lemma iters: "int (TIMEOUT_SECS * 1000 div POLL_MS) = 500"
  by (simp add: TIMEOUT_SECS_def POLL_MS_def)

lemma snd_recv: "snd (recv d) = snd (recv_poll 500 d)"
  by (simp add: recv_def iters Let_def split: prod.splits sum.splits)


lemma recv_answer:
  assumes busy: "\<forall>k<n. not_ready (com_id d) (device (raw d) (length (received (raw d)) + k))"
    and n: "n < 500"
    and data: "device (raw d) (length (received (raw d)) + n) = Inr data"
    and cid: "ucast (hdr_com_id (fit_block data)) = com_id d"
    and len: "hdr_com_length (fit_block data) \<noteq> 0"
  shows "recv d =
           (if sizeof_opal_header + unat (hdr_sub_length (fit_block data)) \<le> ATA_BLOCK_SIZE
            then Inr (take (unat (hdr_sub_length (fit_block data)))
                        (drop sizeof_opal_header (fit_block data)))
            else Inl out_of_bounds,
            after_polls (n + 1) (n * 10000) d)"
proof -
  let ?d = "after_polls n (n * (POLL_MS * 1000)) d"
  have run: "recv_poll 500 d = recv_poll (500 - int n) ?d"
    by (rule recv_poll_busy_run [OF busy]) (use n in simp)
  have "recv_poll (500 - int n) ?d = (Inr (fit_block data, 500 - int n), after_polls 1 0 ?d)"
    by (rule recv_poll_ready) (use data cid len in simp_all)
  then have "recv_poll 500 d = (Inr (fit_block data, 500 - int n), after_polls (n + 1) (n * 10000) d)"
    unfolding run by (simp add: after_polls_after_polls POLL_MS_def)
  then show ?thesis using n by (simp add: recv_def iters Let_def)
qed

lemma recv_mismatch:
  assumes "device (raw d) (length (received (raw d))) = Inr data"
    and "ucast (hdr_com_id (fit_block data)) \<noteq> com_id d"
  shows "recv d = (Inl (topaz_exception ''Unexpected ComID in drive response''), after_polls 1 0 d)"
  by (simp add: recv_def iters recv_poll_mismatch [OF assms])


lemma fit_block_512: "length blk = 512 \<Longrightarrow> fit_block blk = blk"
  by (simp add: fit_block_def ATA_BLOCK_SIZE_def)



lemma example_drive_fields [simp]:
  "raw (example_drive lnk t h m) = lnk"
  "com_id (example_drive lnk t h m) = 0x07fe"
  "tper_session_id (example_drive lnk t h m) = t"
  "host_session_id (example_drive lnk t h m) = h"
  "max_com_pkt_size (example_drive lnk t h m) = m"
  "slept_us (example_drive lnk t h m) = 0"
  by (simp_all add: example_drive_def)

lemma example_link_fields [simp]:
  "sent (example_link dev) = []"
  "received (example_link dev) = []"
  "device (example_link dev) = dev"
  "send_fault (example_link dev) k = None"
  by (simp_all add: example_link_def no_fault_def)


lemma sizes_num: "sizeof_opal_header = 56" "ATA_BLOCK_SIZE = 512"
  by (simp_all add: sizeof_opal_header_def sizeof_com_packet_header_def
      sizeof_packet_header_def sizeof_sub_packet_header_def ATA_BLOCK_SIZE_def)

lemma tot_size_small: "n \<le> 456 \<Longrightarrow> tot_size_of n = 512"
proof -
  assume n: "n \<le> 456"
  have a: "n + 12 \<le> pkt_size_of n" "pkt_size_of n < n + 12 + 4"
    using pad_ge [of 4 "n + 12"] pad_lt [of 4 "n + 12"]
    by (simp_all add: pkt_size_of_def sizeof_sub_packet_header_def)
  have b: "0 < com_size_of n + 20" "com_size_of n + 20 \<le> 512"
  proof -
    show "0 < com_size_of n + 20" by simp
    have "4 dvd pkt_size_of n" by (simp add: pkt_size_of_def pad_dvd)
    then obtain q where q: "pkt_size_of n = 4 * q" by (auto simp add: dvd_def)
    have "4 * q < 472" using a(2) n q by simp
    then have "4 * q \<le> 468" by arith
    then show "com_size_of n + 20 \<le> 512"
      by (simp add: com_size_of_def sizeof_packet_header_def q)
  qed
  have "PAD_TO_MULTIPLE (com_size_of n + 20) 512 = 512"
  proof -
    have "(com_size_of n + 20 + 511) div 512 = 1" using b by simp
    then show ?thesis by (simp add: PAD_TO_MULTIPLE_def)
  qed
  then show ?thesis by (simp add: tot_size_of_def sizeof_com_packet_header_def ATA_BLOCK_SIZE_def)
qed

lemma answer_block_facts:
  assumes "length pl \<le> 456"
  shows "fit_block (opal_packet cid t h pl) = opal_packet cid t h pl"
    and "hdr_com_id (fit_block (opal_packet cid t h pl)) = cid"
    and "hdr_com_length (fit_block (opal_packet cid t h pl)) \<noteq> 0"
    and "unat (hdr_sub_length (fit_block (opal_packet cid t h pl))) = length pl"
    and "reply_of (opal_packet cid t h pl) = pl"
proof -
  show f: "fit_block (opal_packet cid t h pl) = opal_packet cid t h pl"
    by (rule fit_block_512) (simp add: length_opal_packet tot_size_small [OF assms])
  show "hdr_com_id (fit_block (opal_packet cid t h pl)) = cid"
    unfolding f by (rule opal_packet_fields)
  have cs: "com_size_of (length pl) < 2 ^ 32" "0 < com_size_of (length pl)"
    using small_sizes(3) [of "length pl"] tot_size_small [OF assms]
    by (simp_all add: ATA_BLOCK_SIZE_def com_size_of_def sizeof_packet_header_def)
  have "unat (of_nat (com_size_of (length pl)) :: 32 word) \<noteq> 0"
    using cs by (simp add: unat_of_nat32)
  then show "hdr_com_length (fit_block (opal_packet cid t h pl)) \<noteq> 0"
    unfolding f opal_packet_fields by auto
  have "length pl < 2 ^ 32" using assms by simp
  then show u: "unat (hdr_sub_length (fit_block (opal_packet cid t h pl))) = length pl"
    unfolding f opal_packet_fields by (rule unat_of_nat32)
  show "reply_of (opal_packet cid t h pl) = pl"
    unfolding reply_of_def u unfolding f by (rule opal_packet_payload)
qed

lemma done_reply:
  "fit_block done_block = done_block"
  "ucast (hdr_com_id done_block) = (0x07fe :: 32 word)"
  "hdr_com_length done_block \<noteq> 0"
  "unat (hdr_sub_length done_block) = 8"
  "reply_of done_block = [0xf0, 0xf1, 0xf9, 0xf0, 0x00, 0x00, 0x00, 0xf1]"
proof -
  let ?pl = "[0xf0, 0xf1, 0xf9, 0xf0, 0x00, 0x00, 0x00, 0xf1] :: byte list"
  have l: "length ?pl \<le> 456" by simp
  note f = answer_block_facts [OF l, of "0x07fe" 0 0]
  show "fit_block done_block = done_block" unfolding done_block_def by (rule f)
  show "ucast (hdr_com_id done_block) = (0x07fe :: 32 word)"
    unfolding done_block_def opal_packet_fields by simp
  show "hdr_com_length done_block \<noteq> 0"
    using f(3) unfolding done_block_def f(1) .
  show "unat (hdr_sub_length done_block) = 8"
    using f(4) unfolding done_block_def f(1) by simp
  show "reply_of done_block = ?pl" unfolding done_block_def by (rule f)
qed









section \<open>Method invocation\<close>

lemma after_send_fields [simp]:
  "com_id (after_send tr d) = com_id d"
  "tper_session_id (after_send tr d) = tper_session_id d"
  "host_session_id (after_send tr d) = host_session_id d"
  "max_com_pkt_size (after_send tr d) = max_com_pkt_size d"
  "slept_us (after_send tr d) = slept_us d"
  "sent (raw (after_send tr d)) = sent (raw d) @ tr"
  "send_fault (raw (after_send tr d)) = send_fault (raw d)"
  "device (raw (after_send tr d)) = device (raw d)"
  "received (raw (after_send tr d)) = received (raw d)"
  by (simp_all add: after_send_def)

lemma after_send_Nil [simp]: "after_send [] d = d"
  by (simp add: after_send_def)

lemma send_cases:
  "send d outbuf s =
     (if unat (max_com_pkt_size d) < tot_size_of (length outbuf)
      then (Some (topaz_exception ''ComPkt too large for drive''), d)
      else (send_fault (raw d) (length (sent (raw d))), after_send [transfer d outbuf s] d))"
  using send_oversize [of d outbuf s] send_fits [of outbuf d s]
  by (simp add: after_send_def not_less)

lemma transfer_cong:
  "com_id d' = com_id d \<Longrightarrow> tper_session_id d' = tper_session_id d \<Longrightarrow>
   host_session_id d' = host_session_id d \<Longrightarrow> transfer d' outbuf s = transfer d outbuf s"
  by (simp add: transfer_def opal_block_def)

lemma recv_state:
  "\<exists>k us. 1 \<le> k \<and> k \<le> 500 \<and> snd (recv d) = after_polls k us d"
proof -
  obtain k us where "1 \<le> k" "int k \<le> max 1 500" "snd (recv_poll 500 d) = after_polls k us d"
    using recv_poll_bound [of 500 d] by blast
  then show ?thesis by (intro exI [of _ k] exI [of _ us]) (simp add: snd_recv)
qed

lemma recv_length:
  assumes "recv d = (Inr reply, d')"
  shows "length reply \<le> 456"
proof -
  obtain r d'' where rp: "recv_poll 500 d = (r, d'')" by (cases "recv_poll 500 d")
  show ?thesis
  proof (cases r)
    case (Inl e)
    then show ?thesis using assms rp by (simp add: recv_def iters)
  next
    case (Inr bm)
    obtain block mi where bm: "bm = (block, mi)" by (cases bm)
    show ?thesis
    proof (cases "mi = 0 \<or> \<not> 56 + unat (hdr_sub_length block) \<le> 512")
      case True
      then show ?thesis using assms rp Inr bm by (auto simp add: recv_def iters Let_def sizes_num split: if_splits)
    next
      case False
      then have "reply = take (unat (hdr_sub_length block)) (drop 56 block)"
        using assms rp Inr bm by (simp add: recv_def iters Let_def sizes_num)
      then show ?thesis using False by (simp add: min_def)
    qed
  qed
qed

lemma size_t_sub_le:
  assumes "b \<le> a" "a < 2 ^ 64"
  shows "size_t_sub a b = a - b"
proof -
  have "a + 2 ^ 64 - b = (a - b) + 2 ^ 64" using assms(1) by simp
  moreover have "a - b < 2 ^ 64" using assms(2) by simp
  ultimately show ?thesis unfolding size_t_sub_def by (simp only: mod_add_self2 mod_less)
qed

lemma invoke_after_send:
  assumes enc: "encode_vector x (METHOD obj meth (datum_list params)) = Inr enc"
    and snd: "send d (enc @ status_list) (obj \<noteq> SESSION_MGR x) = (None, d1)"
    and rcv: "recv d1 = (Inr reply, d2)"
    and dec: "decode_vector x reply = Inr (rc, cnt)"
    and le: "cnt \<le> length reply"
  shows "invoke x d obj meth params =
           (if length reply - cnt \<noteq> 6
            then (Inl (topaz_exception ''Invalid method status on return''), d2)
            else if reply ! (cnt + 2) \<noteq> 0
            then (Inl (topaz_exception ''Method call failed''), d2)
            else (Inr rc, d2))"
proof -
  have l: "length reply < 2 ^ 64" using recv_length [OF rcv] by simp
  have m: "size_t_sub (length reply) cnt = length reply - cnt"
    by (rule size_t_sub_le [OF le l])
  have step: "invoke x d obj meth params =
           (if size_t_sub (length reply) cnt \<noteq> 6
            then (Inl (topaz_exception ''Invalid method status on return''), d2)
            else if \<not> cnt + 2 < length reply
            then (Inl out_of_bounds, d2)
            else if reply ! (cnt + 2) \<noteq> 0
            then (Inl (topaz_exception ''Method call failed''), d2)
            else (Inr rc, d2))"
    by (simp add: invoke_def enc snd [unfolded status_list_def] rcv dec)
  have "length reply - cnt = 6 \<Longrightarrow> cnt + 2 < length reply" by simp
  then show ?thesis unfolding step m by simp
qed

lemma invoke_encode_fails:
  "encode_vector x (METHOD obj meth (datum_list params)) = Inl e \<Longrightarrow>
   invoke x d obj meth params = (Inl e, d)"
  by (simp add: invoke_def)

lemma invoke_send_fails:
  "encode_vector x (METHOD obj meth (datum_list params)) = Inr enc \<Longrightarrow>
   send d (enc @ status_list) (obj \<noteq> SESSION_MGR x) = (Some e, d1) \<Longrightarrow>
   invoke x d obj meth params = (Inl e, d1)"
  by (simp add: invoke_def status_list_def)

lemma invoke_snd_recv:
  assumes "encode_vector x (METHOD obj meth (datum_list params)) = Inr enc"
    and "send d (enc @ status_list) (obj \<noteq> SESSION_MGR x) = (None, d1)"
  shows "snd (invoke x d obj meth params) = snd (recv d1)"
proof (cases "recv d1")
  case (Pair r d2)
  show ?thesis
  proof (cases r)
    case (Inl e)
    then show ?thesis using assms Pair by (simp add: invoke_def status_list_def)
  next
    case (Inr reply)
    show ?thesis
    proof (cases "decode_vector x reply")
      case (Inl e)
      then show ?thesis using assms Pair Inr by (simp add: invoke_def status_list_def)
    next
      case dec: (Inr p)
      obtain rc cnt where p: "p = (rc, cnt)" by (cases p)
      show ?thesis using assms Pair Inr dec p by (simp add: invoke_def status_list_def)
    qed
  qed
qed

lemma invoke_state:
  "\<exists>tr k us. length tr \<le> 1 \<and> k \<le> 500
      \<and> snd (invoke x d obj meth params) = after_polls k us (after_send tr d)"
proof (cases "encode_vector x (METHOD obj meth (datum_list params))")
  case (Inl e)
  have "snd (invoke x d obj meth params) = after_polls 0 0 (after_send [] d)"
    by (simp add: invoke_encode_fails [OF Inl])
  then show ?thesis by (intro exI [of _ "[]"] exI [of _ 0]) simp
next
  case (Inr enc)
  let ?t = "transfer d (enc @ status_list) (obj \<noteq> SESSION_MGR x)"
  show ?thesis
  proof (cases "send d (enc @ status_list) (obj \<noteq> SESSION_MGR x)")
    case (Pair r d1)
    have d1: "d1 = d \<or> d1 = after_send [?t] d"
      using Pair by (simp add: send_cases split: if_splits)
    show ?thesis
    proof (cases r)
      case (Some e)
      have s: "snd (invoke x d obj meth params) = d1"
        using invoke_send_fails [OF Inr] Pair Some by simp
      from d1 show ?thesis
      proof
        assume "d1 = d"
        then have "snd (invoke x d obj meth params) = after_polls 0 0 (after_send [] d)"
          using s by simp
        then show ?thesis by (intro exI [of _ "[]"] exI [of _ 0]) simp
      next
        assume "d1 = after_send [?t] d"
        then have "snd (invoke x d obj meth params) = after_polls 0 0 (after_send [?t] d)"
          using s by simp
        then show ?thesis by (intro exI [of _ "[?t]"] exI [of _ 0]) simp
      qed
    next
      case None
      then have sd: "send d (enc @ status_list) (obj \<noteq> SESSION_MGR x) = (None, d1)"
        using Pair by simp
      then have d1': "d1 = after_send [?t] d"
        by (simp add: send_cases split: if_splits)
      obtain k us where k: "k \<le> 500" "snd (recv d1) = after_polls k us d1"
        using recv_state [of d1] by blast
      have "snd (invoke x d obj meth params) = after_polls k us (after_send [?t] d)"
        using invoke_snd_recv [OF Inr sd] k(2) d1' by simp
      then show ?thesis using k(1) by (intro exI [of _ "[?t]"] exI [of _ k] exI [of _ us]) simp
    qed
  qed
qed

lemma invoke_success:
  assumes "invoke x d obj meth params = (Inr rc, d')"
  shows "\<exists>enc k us. encode_vector x (METHOD obj meth (datum_list params)) = Inr enc
           \<and> d' = after_polls k us
                    (after_send [transfer d (enc @ status_list) (obj \<noteq> SESSION_MGR x)] d)"
proof (cases "encode_vector x (METHOD obj meth (datum_list params))")
  case (Inl e)
  then show ?thesis using assms by (simp add: invoke_encode_fails)
next
  case (Inr enc)
  let ?t = "transfer d (enc @ status_list) (obj \<noteq> SESSION_MGR x)"
  obtain r d1 where sd: "send d (enc @ status_list) (obj \<noteq> SESSION_MGR x) = (r, d1)"
    by (cases "send d (enc @ status_list) (obj \<noteq> SESSION_MGR x)")
  have r: "r = None"
  proof (cases r)
    case (Some e)
    then show ?thesis using invoke_send_fails [OF Inr] sd assms by simp
  qed simp
  have d1: "d1 = after_send [?t] d"
    using sd r by (simp add: send_cases split: if_splits)
  obtain k us where k: "snd (recv d1) = after_polls k us d1"
    using recv_state [of d1] by blast
  have "d' = after_polls k us (after_send [?t] d)"
    using invoke_snd_recv [OF Inr sd [unfolded r]] k d1 assms by simp
  then show ?thesis using Inr by blast
qed

lemma invoke_accepted:
  assumes enc: "encode_vector x (METHOD obj meth (datum_list params)) = Inr enc"
    and fits: "tot_size_of (length enc + 6) \<le> unat (max_com_pkt_size d)"
    and nofault: "send_fault (raw d) (length (sent (raw d))) = None"
    and acc: "accepted x (com_id d) (device (raw d) (length (received (raw d))))"
  shows "\<exists>rc. invoke x d obj meth params =
           (Inr rc, after_polls 1 0
                      (after_send [transfer d (enc @ status_list) (obj \<noteq> SESSION_MGR x)] d))"
proof -
  let ?d1 = "after_send [transfer d (enc @ status_list) (obj \<noteq> SESSION_MGR x)] d"
  have len: "length (enc @ status_list) = length enc + 6" by (simp add: status_list_def)
  have sd: "send d (enc @ status_list) (obj \<noteq> SESSION_MGR x) = (None, ?d1)"
    using fits nofault unfolding send_cases len by simp
  obtain data where data: "device (raw d) (length (received (raw d))) = Inr data"
    using acc by (cases "device (raw d) (length (received (raw d)))") (simp_all add: accepted_def)
  have a: "ucast (hdr_com_id (fit_block data)) = com_id d"
    "hdr_com_length (fit_block data) \<noteq> 0"
    "sizeof_opal_header + unat (hdr_sub_length (fit_block data)) \<le> ATA_BLOCK_SIZE"
    using acc data by (simp_all add: accepted_def)
  obtain rc cnt where dec: "decode_vector x (reply_of data) = Inr (rc, cnt)"
    and c: "cnt + 6 = length (reply_of data)" "reply_of data ! (cnt + 2) = 0"
    using acc data by (auto simp add: accepted_def split: sum.splits)
  have rcv: "recv ?d1 = (Inr (reply_of data), after_polls 1 0 ?d1)"
    using recv_answer [of 0 ?d1 data] data a by (simp add: reply_of_def)
  have le: "cnt \<le> length (reply_of data)" using c(1) by simp
  have "invoke x d obj meth params = (Inr rc, after_polls 1 0 ?d1)"
    using invoke_after_send [OF enc sd rcv dec le] c by simp
  then show ?thesis by blast
qed

lemma example_externals_fields [simp]:
  "decode_vector example_externals = example_decode"
  "SESSION_MGR example_externals = 0xff"
  "ADMIN_SP example_externals = 0x0000020500000001"
  "REVERT example_externals = 0x0000000600000202"
  "SET example_externals = 0x0000000600000017"
  "encode_vector example_externals y =
     (case example_encode y of
        None \<Rightarrow> Inl (topaz_exception ''Cannot encode unset datum'')
      | Some bs \<Rightarrow> Inr bs)"
  by (simp_all add: example_externals_def)

lemma done_accepted:
  "accepted example_externals 0x07fe (always done_block k)"
proof -
  let ?pl = "[0xf0, 0xf1, 0xf9, 0xf0, 0x00, 0x00, 0x00, 0xf1] :: byte list"
  have l: "length ?pl \<le> 456" by simp
  note f = answer_block_facts [OF l, of "0x07fe" 0 0]
  show ?thesis
    unfolding accepted_def always_def done_block_def
    using f
    by (simp add: sizes_num example_decode_def)
qed

lemma denied_reply:
  "fit_block denied_block = denied_block"
  "ucast (hdr_com_id denied_block) = (0x07fe :: 32 word)"
  "hdr_com_length denied_block \<noteq> 0"
  "unat (hdr_sub_length denied_block) = 8"
  "reply_of denied_block = [0xf0, 0xf1, 0xf9, 0xf0, 0x01, 0x00, 0x00, 0xf1]"
proof -
  let ?pl = "[0xf0, 0xf1, 0xf9, 0xf0, 0x01, 0x00, 0x00, 0xf1] :: byte list"
  have l: "length ?pl \<le> 456" by simp
  note f = answer_block_facts [OF l, of "0x07fe" 0 0]
  show "fit_block denied_block = denied_block" unfolding denied_block_def by (rule f)
  show "ucast (hdr_com_id denied_block) = (0x07fe :: 32 word)"
    unfolding denied_block_def opal_packet_fields by simp
  show "hdr_com_length denied_block \<noteq> 0"
    using f(3) unfolding denied_block_def f(1) .
  show "unat (hdr_sub_length denied_block) = 8"
    using f(4) unfolding denied_block_def f(1) by simp
  show "reply_of denied_block = ?pl" unfolding denied_block_def by (rule f)
qed

lemma encode_uid: "encode_bytes (atom_uint V True) = 0xA8 # be64 V"
  by (simp add: encode_bytes_def atom_uint_def tok_defs flag_def)

lemma example_call_encoding:
  "encode_vector example_externals (METHOD obj meth []) =
     Inr ([0xf8] @ (0xA8 # be64 obj) @ (0xA8 # be64 meth) @ [0xf0, 0xf1])"
  by (simp add: encode_uid)

lemma transfer_whole:
  assumes "tot_size_of (length outbuf) div ATA_BLOCK_SIZE < 256"
  shows "transfer d outbuf s =
           (1, ucast (com_id d), opal_block d outbuf s,
            of_nat (tot_size_of (length outbuf) div ATA_BLOCK_SIZE))"
proof -
  note sm = small_sizes [OF assms]
  have "unat (of_nat (tot_size_of (length outbuf) div ATA_BLOCK_SIZE) :: byte) * ATA_BLOCK_SIZE
            = tot_size_of (length outbuf)"
    using assms sm(5) by (simp add: unat_of_nat8 mult.commute)
  then show ?thesis by (simp add: transfer_def length_opal_block)
qed

lemma invoke_answer:
  assumes enc: "encode_vector x (METHOD obj meth (datum_list params)) = Inr enc"
    and fits: "tot_size_of (length enc + 6) \<le> unat (max_com_pkt_size d)"
    and nofault: "send_fault (raw d) (length (sent (raw d))) = None"
    and data: "device (raw d) (length (received (raw d))) = Inr data"
    and cid: "ucast (hdr_com_id (fit_block data)) = com_id d"
    and rdy: "hdr_com_length (fit_block data) \<noteq> 0"
    and bnd: "sizeof_opal_header + unat (hdr_sub_length (fit_block data)) \<le> ATA_BLOCK_SIZE"
    and dec: "decode_vector x (reply_of data) = Inr (rc, cnt)"
    and le: "cnt \<le> length (reply_of data)"
  shows "invoke x d obj meth params =
           (if length (reply_of data) - cnt \<noteq> 6
            then Inl (topaz_exception ''Invalid method status on return'')
            else if reply_of data ! (cnt + 2) \<noteq> 0
            then Inl (topaz_exception ''Method call failed'')
            else Inr rc,
            after_polls 1 0
              (after_send [transfer d (enc @ status_list) (obj \<noteq> SESSION_MGR x)] d))"
proof -
  let ?d1 = "after_send [transfer d (enc @ status_list) (obj \<noteq> SESSION_MGR x)] d"
  have len: "length (enc @ status_list) = length enc + 6" by (simp add: status_list_def)
  have sd: "send d (enc @ status_list) (obj \<noteq> SESSION_MGR x) = (None, ?d1)"
    using fits nofault unfolding send_cases len by simp
  have rcv: "recv ?d1 = (Inr (reply_of data), after_polls 1 0 ?d1)"
    using recv_answer [of 0 ?d1 data] data cid rdy bnd by (simp add: reply_of_def)
  show ?thesis
    using invoke_after_send [OF enc sd rcv dec le] by simp
qed


lemma invoke_sent:
  assumes enc: "encode_vector x (METHOD obj meth (datum_list params)) = Inr enc"
    and fits: "tot_size_of (length enc + 6) \<le> unat (max_com_pkt_size d)"
  shows "sent (raw (snd (invoke x d obj meth params)))
           = sent (raw d) @ [transfer d (enc @ status_list) (obj \<noteq> SESSION_MGR x)]"
proof -
  let ?d1 = "after_send [transfer d (enc @ status_list) (obj \<noteq> SESSION_MGR x)] d"
  have len: "length (enc @ status_list) = length enc + 6" by (simp add: status_list_def)
  have sd: "send d (enc @ status_list) (obj \<noteq> SESSION_MGR x)
              = (send_fault (raw d) (length (sent (raw d))), ?d1)"
    using fits unfolding send_cases len by simp
  show ?thesis
  proof (cases "send_fault (raw d) (length (sent (raw d)))")
    case (Some e)
    then show ?thesis using invoke_send_fails [OF enc] sd by simp
  next
    case None
    obtain k us where k: "snd (recv ?d1) = after_polls k us ?d1"
      using recv_state [of ?d1] by blast
    show ?thesis using invoke_snd_recv [OF enc] sd None k by simp
  qed
qed

lemma example_call_fits: "tot_size_of (length ([0xf8 :: byte] @ (0xA8 # be64 obj) @ (0xA8 # be64 meth) @ [0xf0, 0xf1]) + 6) = 512"
  by (rule tot_size_small) simp

text \<open>
  C4 (method status handling). Once the call has been encoded and sent and the reply
  received and decoded (the decoder having consumed \<open>cnt\<close> of its bytes), \<open>invoke\<close>
  requires exactly six bytes after the decoded datum and fails with "Invalid method status
  on return" otherwise; it reads the status as the third of the six, fails with "Method
  call failed" if and only if that byte is non-zero, and returns the decoded datum if and
  only if it is zero. In particular a reply ending \<open>F9 F0 01 00 00 F1\<close> has the status
  \<open>STA_NOT_AUTHORIZED\<close> (\<open>0x01\<close>) and fails. The exception carries the message only,
  not the status code.
\<close>

theorem method_status_handling:
  assumes "encode_vector x (METHOD obj meth (datum_list params)) = Inr enc"
    and "send d (enc @ status_list) (obj \<noteq> SESSION_MGR x) = (None, d1)"
    and "recv d1 = (Inr reply, d2)"
    and "decode_vector x reply = Inr (rc, cnt)"
    and "cnt \<le> length reply"
  shows "(length reply - cnt \<noteq> 6 \<longrightarrow>
            invoke x d obj meth params
              = (Inl (topaz_exception ''Invalid method status on return''), d2))
       \<and> (length reply - cnt = 6 \<longrightarrow>
            (invoke x d obj meth params = (Inl (topaz_exception ''Method call failed''), d2)
               \<longleftrightarrow> reply ! (cnt + 2) \<noteq> 0)
          \<and> (invoke x d obj meth params = (Inr rc, d2) \<longleftrightarrow> reply ! (cnt + 2) = 0))
       \<and> (drop cnt reply = [0xF9, 0xF0, 0x01, 0x00, 0x00, 0xF1] \<longrightarrow>
            reply ! (cnt + 2) = STA_NOT_AUTHORIZED
          \<and> invoke x d obj meth params = (Inl (topaz_exception ''Method call failed''), d2))"
proof -
  note inv = invoke_after_send [OF assms]
  have tail: "reply ! (cnt + 2) = 0x01 \<and> length reply - cnt = 6"
    if "drop cnt reply = [0xF9, 0xF0, 0x01, 0x00, 0x00, 0xF1]"
  proof -
    have "length (drop cnt reply) = 6" using that by simp
    then have l: "length reply - cnt = 6" by simp
    have "drop cnt reply ! 2 = 0x01" using that by simp
    then have "reply ! (cnt + 2) = 0x01" using assms(5) by (simp add: nth_drop)
    then show ?thesis using l by simp
  qed
  show ?thesis
    unfolding inv using tail by (auto simp add: STA_NOT_AUTHORIZED_def)
qed

theorem method_status_handling_witness:
  "encode_vector example_externals (METHOD 0xff 0xff02 (datum_list UNSET))
     = Inr ([0xf8] @ (0xA8 # be64 0xff) @ (0xA8 # be64 0xff02) @ [0xf0, 0xf1])
   \<and> recv (after_send
             [transfer (example_drive (example_link (always denied_block)) 0 0 512)
                (([0xf8] @ (0xA8 # be64 0xff) @ (0xA8 # be64 0xff02) @ [0xf0, 0xf1]) @ status_list)
                False]
             (example_drive (example_link (always denied_block)) 0 0 512))
       = (Inr [0xf0, 0xf1, 0xf9, 0xf0, 0x01, 0x00, 0x00, 0xf1],
          after_polls 1 0
            (after_send
               [transfer (example_drive (example_link (always denied_block)) 0 0 512)
                  (([0xf8] @ (0xA8 # be64 0xff) @ (0xA8 # be64 0xff02) @ [0xf0, 0xf1]) @ status_list)
                  False]
               (example_drive (example_link (always denied_block)) 0 0 512)))
   \<and> decode_vector example_externals [0xf0, 0xf1, 0xf9, 0xf0, 0x01, 0x00, 0x00, 0xf1]
       = Inr (LIST [], 2)
   \<and> invoke example_externals (example_drive (example_link (always denied_block)) 0 0 512)
        0xff 0xff02 UNSET
       = (Inl (topaz_exception ''Method call failed''),
          after_polls 1 0
            (after_send
               [transfer (example_drive (example_link (always denied_block)) 0 0 512)
                  (([0xf8] @ (0xA8 # be64 0xff) @ (0xA8 # be64 0xff02) @ [0xf0, 0xf1]) @ status_list)
                  False]
               (example_drive (example_link (always denied_block)) 0 0 512)))"
proof -
  let ?d = "example_drive (example_link (always denied_block)) 0 0 512"
  let ?enc = "[0xf8] @ (0xA8 # be64 0xff) @ (0xA8 # be64 0xff02) @ [0xf0, 0xf1] :: byte list"
  let ?reply = "[0xf0, 0xf1, 0xf9, 0xf0, 0x01, 0x00, 0x00, 0xf1] :: byte list"
  let ?d1 = "after_send [transfer ?d (?enc @ status_list) False] ?d"
  have enc: "encode_vector example_externals (METHOD 0xff 0xff02 (datum_list UNSET)) = Inr ?enc"
    using example_call_encoding [of "0xff" "0xff02"] by simp
  have len: "length (?enc @ status_list) = length ?enc + 6" by (simp add: status_list_def)
  have sd: "send ?d (?enc @ status_list) (0xff \<noteq> SESSION_MGR example_externals) = (None, ?d1)"
    unfolding send_cases len example_call_fits by simp
  have rcv: "recv ?d1 = (Inr ?reply, after_polls 1 0 ?d1)"
    using recv_answer [of 0 ?d1 denied_block] denied_reply
    by (simp add: always_def sizes_num reply_of_def)
  have dec: "decode_vector example_externals ?reply = Inr (LIST [], 2)"
    by (simp add: example_decode_def)
  have le: "2 \<le> length ?reply" by simp
  have dr: "drop 2 ?reply = [0xF9, 0xF0, 0x01, 0x00, 0x00, 0xF1]" by simp
  from method_status_handling [OF enc sd rcv dec le] dr
  have "invoke example_externals ?d 0xff 0xff02 UNSET
          = (Inl (topaz_exception ''Method call failed''), after_polls 1 0 ?d1)"
    by blast
  then show ?thesis using enc rcv dec by simp
qed

lemma example_invoke_done:
  assumes enc: "encode_vector example_externals (METHOD obj meth (datum_list params)) = Inr enc"
    and len: "length enc \<le> 450"
    and m: "512 \<le> unat m"
  shows "invoke example_externals (example_drive (example_link (always done_block)) t h m)
           obj meth params
         = (Inr (LIST []),
            after_polls 1 0
              (after_send
                 [transfer (example_drive (example_link (always done_block)) t h m)
                    (enc @ status_list) (obj \<noteq> 0xff)]
                 (example_drive (example_link (always done_block)) t h m)))"
proof -
  let ?d = "example_drive (example_link (always done_block)) t h m"
  have fits: "tot_size_of (length enc + 6) \<le> unat (max_com_pkt_size ?d)"
    using tot_size_small [of "length enc + 6"] len m by simp
  have "invoke example_externals ?d obj meth params
         = (if length (reply_of done_block) - 2 \<noteq> 6
            then Inl (topaz_exception ''Invalid method status on return'')
            else if reply_of done_block ! (2 + 2) \<noteq> 0
            then Inl (topaz_exception ''Method call failed'')
            else Inr (LIST []),
            after_polls 1 0
              (after_send [transfer ?d (enc @ status_list) (obj \<noteq> SESSION_MGR example_externals)] ?d))"
    by (rule invoke_answer [OF enc fits])
       (simp_all add: always_def done_reply sizes_num example_decode_def)
  then show ?thesis by (simp add: done_reply)
qed

lemma example_invoke_denied:
  assumes enc: "encode_vector example_externals (METHOD obj meth (datum_list params)) = Inr enc"
    and len: "length enc \<le> 450"
    and m: "512 \<le> unat m"
  shows "invoke example_externals (example_drive (example_link (always denied_block)) t h m)
           obj meth params
         = (Inl (topaz_exception ''Method call failed''),
            after_polls 1 0
              (after_send
                 [transfer (example_drive (example_link (always denied_block)) t h m)
                    (enc @ status_list) (obj \<noteq> 0xff)]
                 (example_drive (example_link (always denied_block)) t h m)))"
proof -
  let ?d = "example_drive (example_link (always denied_block)) t h m"
  have fits: "tot_size_of (length enc + 6) \<le> unat (max_com_pkt_size ?d)"
    using tot_size_small [of "length enc + 6"] len m by simp
  have "invoke example_externals ?d obj meth params
         = (if length (reply_of denied_block) - 2 \<noteq> 6
            then Inl (topaz_exception ''Invalid method status on return'')
            else if reply_of denied_block ! (2 + 2) \<noteq> 0
            then Inl (topaz_exception ''Method call failed'')
            else Inr (LIST []),
            after_polls 1 0
              (after_send [transfer ?d (enc @ status_list) (obj \<noteq> SESSION_MGR example_externals)] ?d))"
    by (rule invoke_answer [OF enc fits])
       (simp_all add: always_def denied_reply sizes_num example_decode_def)
  then show ?thesis by (simp add: denied_reply)
qed


lemma send_datum_cases:
  assumes enc: "encode_vector x y = Inr enc"
    and fits: "tot_size_of (length enc) \<le> unat (max_com_pkt_size d)"
  shows "send_datum x d y =
           (if (case y of METHOD obj meth args \<Rightarrow> obj = SESSION_MGR x | _ \<Rightarrow> False)
            then (send_fault (raw d) (length (sent (raw d))), after_send [transfer d enc False] d)
            else if host_session_id d = 0
            then (Some (topaz_exception ''Failed send(): No TPer Session''), d)
            else (send_fault (raw d) (length (sent (raw d))), after_send [transfer d enc True] d))"
  using fits
  by (simp add: send_datum_def enc Let_def if_send_def transfer_def after_send_def not_less)

lemma opal_block_ids:
  "hdr_tper_session_id (opal_block d outbuf s) = (if s then ucast (tper_session_id d) else 0)"
  "hdr_host_session_id (opal_block d outbuf s) = (if s then ucast (host_session_id d) else 0)"
  by (simp_all add: opal_block_def opal_packet_fields)

text \<open>
  C5 (session-id placement), as the specification states it: a call to an object other
  than the session manager, attempted when no session exists, fails with a
  session-required error instead of transmitting. \<open>invoke\<close> makes no such check: with
  both session ids zero, the call \<open>Revert\<close> on the Admin SP is transmitted (one call of
  \<open>if_send\<close> in the log) and returns the drive's answer.
\<close>

theorem session_required_counterexample:
  "ADMIN_SP example_externals \<noteq> SESSION_MGR example_externals
   \<and> tper_session_id (example_drive (example_link (always done_block)) 0 0 512) = 0
   \<and> host_session_id (example_drive (example_link (always done_block)) 0 0 512) = 0
   \<and> fst (invoke example_externals (example_drive (example_link (always done_block)) 0 0 512)
            (ADMIN_SP example_externals) (REVERT example_externals) UNSET) = Inr (LIST [])
   \<and> length (sent (raw (snd (invoke example_externals
                                (example_drive (example_link (always done_block)) 0 0 512)
                                (ADMIN_SP example_externals) (REVERT example_externals) UNSET))))
       = 1"
proof -
  have enc: "encode_vector example_externals
               (METHOD (ADMIN_SP example_externals) (REVERT example_externals) (datum_list UNSET))
             = Inr ([0xf8] @ (0xA8 # be64 (ADMIN_SP example_externals))
                    @ (0xA8 # be64 (REVERT example_externals)) @ [0xf0, 0xf1])"
    using example_call_encoding
      [of "ADMIN_SP example_externals" "REVERT example_externals"] by simp
  show ?thesis
    using example_invoke_done [OF enc, of 512 0 0] by simp
qed

text \<open>
  C5 as the code has it. Every call that \<open>invoke\<close> makes, once encoded and within the
  drive's packet size (and within the 255 blocks of the transport's count), makes one call
  of \<open>if_send\<close>, which transfers one ComPacket (the padded total, in 512-byte blocks)
  whose PacketHeader has both session-id fields zero when the invoking UID is the
  session manager's, and the low 32 bits of the live session ids otherwise, whether a
  session exists or not. The session check is in the datum-based \<open>send\<close> of the older
  engine (\<open>send_datum\<close>): there a datum that is not a call to the session manager is
  refused with "Failed send(): No TPer Session", nothing transmitted and the handle
  unchanged, when \<open>host_session_id\<close> is zero; a session-manager call goes out with both
  fields zero and any other datum with the live ids.
\<close>

theorem session_id_placement:
  "(\<forall>enc. encode_vector x (METHOD obj meth (datum_list params)) = Inr enc
          \<and> tot_size_of (length enc + 6) \<le> unat (max_com_pkt_size d)
          \<and> tot_size_of (length enc + 6) div ATA_BLOCK_SIZE < 256 \<longrightarrow>
      sent (raw (snd (invoke x d obj meth params)))
        = sent (raw d) @ [(1, ucast (com_id d),
                           opal_block d (enc @ status_list) (obj \<noteq> SESSION_MGR x),
                           of_nat (tot_size_of (length enc + 6) div ATA_BLOCK_SIZE))]
      \<and> length (opal_block d (enc @ status_list) (obj \<noteq> SESSION_MGR x))
          = tot_size_of (length enc + 6)
      \<and> hdr_tper_session_id (opal_block d (enc @ status_list) (obj \<noteq> SESSION_MGR x))
          = (if obj = SESSION_MGR x then 0 else ucast (tper_session_id d))
      \<and> hdr_host_session_id (opal_block d (enc @ status_list) (obj \<noteq> SESSION_MGR x))
          = (if obj = SESSION_MGR x then 0 else ucast (host_session_id d)))
   \<and> (\<forall>y enc. encode_vector x y = Inr enc
          \<and> tot_size_of (length enc) \<le> unat (max_com_pkt_size d) \<longrightarrow>
      send_datum x d y =
        (if (case y of METHOD obj meth args \<Rightarrow> obj = SESSION_MGR x | _ \<Rightarrow> False)
         then (send_fault (raw d) (length (sent (raw d))), after_send [transfer d enc False] d)
         else if host_session_id d = 0
         then (Some (topaz_exception ''Failed send(): No TPer Session''), d)
         else (send_fault (raw d) (length (sent (raw d))), after_send [transfer d enc True] d)))"
proof (intro conjI allI impI)
  fix enc
  assume a: "encode_vector x (METHOD obj meth (datum_list params)) = Inr enc
          \<and> tot_size_of (length enc + 6) \<le> unat (max_com_pkt_size d)
          \<and> tot_size_of (length enc + 6) div ATA_BLOCK_SIZE < 256"
  have len: "length (enc @ status_list) = length enc + 6" by (simp add: status_list_def)
  have w: "tot_size_of (length (enc @ status_list)) div ATA_BLOCK_SIZE < 256"
    unfolding len using a by simp
  show "sent (raw (snd (invoke x d obj meth params)))
        = sent (raw d) @ [(1, ucast (com_id d),
                           opal_block d (enc @ status_list) (obj \<noteq> SESSION_MGR x),
                           of_nat (tot_size_of (length enc + 6) div ATA_BLOCK_SIZE))]"
    using invoke_sent [of x obj meth params enc d] a transfer_whole [OF w, of d "obj \<noteq> SESSION_MGR x"]
    unfolding len by simp
  show "length (opal_block d (enc @ status_list) (obj \<noteq> SESSION_MGR x))
          = tot_size_of (length enc + 6)"
    unfolding length_opal_block len ..
  show "hdr_tper_session_id (opal_block d (enc @ status_list) (obj \<noteq> SESSION_MGR x))
          = (if obj = SESSION_MGR x then 0 else ucast (tper_session_id d))"
    by (simp add: opal_block_ids)
  show "hdr_host_session_id (opal_block d (enc @ status_list) (obj \<noteq> SESSION_MGR x))
          = (if obj = SESSION_MGR x then 0 else ucast (host_session_id d))"
    by (simp add: opal_block_ids)
next
  fix y enc
  assume "encode_vector x y = Inr enc \<and> tot_size_of (length enc) \<le> unat (max_com_pkt_size d)"
  then show "send_datum x d y =
        (if (case y of METHOD obj meth args \<Rightarrow> obj = SESSION_MGR x | _ \<Rightarrow> False)
         then (send_fault (raw d) (length (sent (raw d))), after_send [transfer d enc False] d)
         else if host_session_id d = 0
         then (Some (topaz_exception ''Failed send(): No TPer Session''), d)
         else (send_fault (raw d) (length (sent (raw d))), after_send [transfer d enc True] d))"
    using send_datum_cases by blast
qed

theorem session_id_placement_witness:
  "hdr_tper_session_id
     (opal_block (example_drive (example_link (always done_block)) 5 7 512)
        (([0xf8] @ (0xA8 # be64 0x0000020500000001) @ (0xA8 # be64 0x0000000600000202)
          @ [0xf0, 0xf1]) @ status_list) True) = 5
   \<and> hdr_host_session_id
     (opal_block (example_drive (example_link (always done_block)) 5 7 512)
        (([0xf8] @ (0xA8 # be64 0x0000020500000001) @ (0xA8 # be64 0x0000000600000202)
          @ [0xf0, 0xf1]) @ status_list) True) = 7
   \<and> sent (raw (snd (invoke example_externals
                        (example_drive (example_link (always done_block)) 5 7 512)
                        0x0000020500000001 0x0000000600000202 UNSET)))
       = [(1, 0x07fe,
           opal_block (example_drive (example_link (always done_block)) 5 7 512)
             (([0xf8] @ (0xA8 # be64 0x0000020500000001) @ (0xA8 # be64 0x0000000600000202)
               @ [0xf0, 0xf1]) @ status_list) True,
           1)]
   \<and> send_datum example_externals (example_drive (example_link (always done_block)) 0 0 512)
        (METHOD 0x0000020500000001 0x0000000600000202 [])
       = (Some (topaz_exception ''Failed send(): No TPer Session''),
          example_drive (example_link (always done_block)) 0 0 512)"
proof -
  let ?d = "example_drive (example_link (always done_block)) 5 7 512"
  let ?z = "example_drive (example_link (always done_block)) 0 0 512"
  let ?enc = "[0xf8] @ (0xA8 # be64 0x0000020500000001) @ (0xA8 # be64 0x0000000600000202)
              @ [0xf0, 0xf1] :: byte list"
  have enc: "encode_vector example_externals
               (METHOD 0x0000020500000001 0x0000000600000202 (datum_list UNSET)) = Inr ?enc"
    using example_call_encoding [of "0x0000020500000001" "0x0000000600000202"] by simp
  have encz: "encode_vector example_externals
               (METHOD 0x0000020500000001 0x0000000600000202 []) = Inr ?enc"
    using example_call_encoding [of "0x0000020500000001" "0x0000000600000202"] by simp
  have t: "tot_size_of (length ?enc + 6) = 512" by (rule tot_size_small) simp
  have tz: "tot_size_of (length ?enc) = 512" by (rule tot_size_small) simp
  have a: "tot_size_of (length ?enc + 6) \<le> unat (max_com_pkt_size ?d)
           \<and> tot_size_of (length ?enc + 6) div ATA_BLOCK_SIZE < 256"
    unfolding t by (simp add: ATA_BLOCK_SIZE_def)
  have az: "tot_size_of (length ?enc) \<le> unat (max_com_pkt_size ?z)"
    unfolding tz by simp
  from session_id_placement
         [where x = example_externals and d = ?d and obj = "0x0000020500000001"
            and meth = "0x0000000600000202" and params = UNSET] enc a
  have one: "sent (raw (snd (invoke example_externals ?d 0x0000020500000001 0x0000000600000202 UNSET)))
        = sent (raw ?d) @ [(1, ucast (com_id ?d),
                           opal_block ?d (?enc @ status_list)
                             (0x0000020500000001 \<noteq> SESSION_MGR example_externals),
                           of_nat (tot_size_of (length ?enc + 6) div ATA_BLOCK_SIZE))]
      \<and> hdr_tper_session_id (opal_block ?d (?enc @ status_list)
                                (0x0000020500000001 \<noteq> SESSION_MGR example_externals))
          = (if 0x0000020500000001 = SESSION_MGR example_externals then 0
             else ucast (tper_session_id ?d))
      \<and> hdr_host_session_id (opal_block ?d (?enc @ status_list)
                                (0x0000020500000001 \<noteq> SESSION_MGR example_externals))
          = (if 0x0000020500000001 = SESSION_MGR example_externals then 0
             else ucast (host_session_id ?d))"
    by blast
  from session_id_placement
         [where x = example_externals and d = ?z and obj = "0x0000020500000001"
            and meth = "0x0000000600000202" and params = UNSET] encz az
  have two: "send_datum example_externals ?z (METHOD 0x0000020500000001 0x0000000600000202 [])
      = (if (case METHOD 0x0000020500000001 0x0000000600000202 [] of
               METHOD obj meth args \<Rightarrow> obj = SESSION_MGR example_externals | _ \<Rightarrow> False)
         then (send_fault (raw ?z) (length (sent (raw ?z))), after_send [transfer ?z ?enc False] ?z)
         else if host_session_id ?z = 0
         then (Some (topaz_exception ''Failed send(): No TPer Session''), ?z)
         else (send_fault (raw ?z) (length (sent (raw ?z))), after_send [transfer ?z ?enc True] ?z))"
    by blast
  have n: "(of_nat (tot_size_of (length ?enc + 6) div ATA_BLOCK_SIZE) :: byte) = 1"
    unfolding t by (simp add: ATA_BLOCK_SIZE_def)
  show ?thesis
    using one two unfolding n by simp
qed


lemma invoke_ids:
  "tper_session_id (snd (invoke x d obj meth params)) = tper_session_id d"
  "host_session_id (snd (invoke x d obj meth params)) = host_session_id d"
  "com_id (snd (invoke x d obj meth params)) = com_id d"
  "max_com_pkt_size (snd (invoke x d obj meth params)) = max_com_pkt_size d"
  "send_fault (raw (snd (invoke x d obj meth params))) = send_fault (raw d)"
  "device (raw (snd (invoke x d obj meth params))) = device (raw d)"
proof -
  obtain tr k us where s: "snd (invoke x d obj meth params) = after_polls k us (after_send tr d)"
    using invoke_state [of x d obj meth params] by blast
  show "tper_session_id (snd (invoke x d obj meth params)) = tper_session_id d"
    "host_session_id (snd (invoke x d obj meth params)) = host_session_id d"
    "com_id (snd (invoke x d obj meth params)) = com_id d"
    "max_com_pkt_size (snd (invoke x d obj meth params)) = max_com_pkt_size d"
    "send_fault (raw (snd (invoke x d obj meth params))) = send_fault (raw d)"
    "device (raw (snd (invoke x d obj meth params))) = device (raw d)"
    unfolding s by simp_all
qed





section \<open>Writing a binary table\<close>

lemma spec_chunks_Nil [simp]: "spec_chunks c [] = []"
  by (subst spec_chunks.simps) simp

lemma spec_chunks_Cons:
  "0 < c \<Longrightarrow> data \<noteq> [] \<Longrightarrow> spec_chunks c data = take c data # spec_chunks c (drop c data)"
  by (subst spec_chunks.simps) simp

lemma concat_spec_chunks: "0 < c \<Longrightarrow> concat (spec_chunks c data) = data"
proof (induction c data rule: spec_chunks.induct)
  case (1 c data)
  show ?case
  proof (cases "data = []")
    case True
    then show ?thesis by simp
  next
    case False
    then show ?thesis using 1 by (simp add: spec_chunks_Cons)
  qed
qed

lemma spec_chunks_lengths:
  "0 < c \<Longrightarrow> ch \<in> set (spec_chunks c data) \<Longrightarrow> 0 < length ch \<and> length ch \<le> c"
proof (induction c data rule: spec_chunks.induct)
  case (1 c data)
  show ?case
  proof (cases "data = []")
    case True
    then show ?thesis using 1(3) by simp
  next
    case False
    then show ?thesis using 1 by (auto simp add: spec_chunks_Cons)
  qed
qed

lemma spec_chunks_butlast:
  "0 < c \<Longrightarrow> ch \<in> set (butlast (spec_chunks c data)) \<Longrightarrow> length ch = c"
proof (induction c data rule: spec_chunks.induct)
  case (1 c data)
  show ?case
  proof (cases "data = []")
    case True
    then show ?thesis using 1(3) by simp
  next
    case False
    note sc = spec_chunks_Cons [OF 1(2) False]
    show ?thesis
    proof (cases "drop c data = []")
      case True
      then show ?thesis using 1(3) unfolding sc by simp
    next
      case d: False
      then have ne: "spec_chunks c (drop c data) \<noteq> []"
        using spec_chunks_Cons [OF 1(2) d] by simp
      have "c < length data" using d by simp
      then have "length (take c data) = c" by simp
      then show ?thesis using 1 False ne unfolding sc by auto
    qed
  qed
qed

lemma set_calls_cong:
  "com_id d' = com_id d \<Longrightarrow> tper_session_id d' = tper_session_id d \<Longrightarrow>
   host_session_id d' = host_session_id d \<Longrightarrow>
   set_calls x d' tbl off cs = set_calls x d tbl off cs"
proof (induction cs arbitrary: off)
  case Nil
  show ?case by simp
next
  case (Cons c cs)
  have t: "transfer d' outbuf s = transfer d outbuf s" for outbuf s
    using Cons.prems by (rule transfer_cong)
  have "set_call x d' tbl off c = set_call x d tbl off c"
    by (simp add: set_call_def t split: sum.splits)
  then show ?case using Cons by simp
qed

lemma atom_bytes_empty: "atom_bytes [] = Inr empty_bin"
  by (simp add: atom_bytes_def pick_encoding_def empty_bin_def)

lemma loop_done: "table_set_bin_loop f x d tbl C off ptr 0 = Some (None, d)"
  by (subst table_set_bin_loop.simps) simp

lemma loop_out_of_fuel: "len \<noteq> 0 \<Longrightarrow> table_set_bin_loop 0 x d tbl C off ptr len = None"
  by (subst table_set_bin_loop.simps) simp

lemma loop_step:
  assumes "len \<noteq> 0"
  shows "table_set_bin_loop (Suc f) x d tbl C off ptr len =
           (case atom_bytes (take (unat (if len > C then C else len)) ptr) of
              Inl e \<Rightarrow> Some (Some e, d)
            | Inr data_atom \<Rightarrow>
                (case invoke x d tbl (SET x) (set_bin_params off data_atom) of
                   (Inl e, d') \<Rightarrow> Some (Some e, d')
                 | (Inr rc, d') \<Rightarrow>
                     table_set_bin_loop f x d' tbl C
                       (off + (if len > C then C else len))
                       (drop (unat (if len > C then C else len)) ptr)
                       (len - (if len > C then C else len))))"
  using assms by (subst table_set_bin_loop.simps) (simp add: Let_def)

lemma loop_zero_step:
  assumes "len \<noteq> 0"
  shows "table_set_bin_loop (Suc f) x d tbl 0 off ptr len =
           (case invoke x d tbl (SET x) (set_bin_params off empty_bin) of
              (Inl e, d') \<Rightarrow> Some (Some e, d')
            | (Inr rc, d') \<Rightarrow> table_set_bin_loop f x d' tbl 0 off ptr len)"
proof -
  have "0 < len" using assms by (simp add: word_gt_0)
  then show ?thesis
    unfolding loop_step [OF assms]
    by (simp add: atom_bytes_empty split: prod.splits sum.splits)
qed

lemma loop_zero_no_return:
  "len \<noteq> 0 \<Longrightarrow> table_set_bin_loop f x d tbl 0 off ptr len \<noteq> Some (None, d')"
proof (induction f arbitrary: d)
  case 0
  then show ?case by (simp add: loop_out_of_fuel)
next
  case (Suc f)
  obtain r d1 where i: "invoke x d tbl (SET x) (set_bin_params off empty_bin) = (r, d1)"
    by (cases "invoke x d tbl (SET x) (set_bin_params off empty_bin)")
  show ?case
  proof (cases r)
    case (Inl e)
    then show ?thesis using i Suc.prems by (simp add: loop_zero_step)
  next
    case (Inr rc)
    then show ?thesis using i Suc by (simp add: loop_zero_step)
  qed
qed

lemma loop_zero_forever:
  assumes "len \<noteq> 0"
    and "encode_vector x (METHOD tbl (SET x) (datum_list (set_bin_params off empty_bin))) = Inr enc"
    and "tot_size_of (length enc + 6) \<le> unat (max_com_pkt_size d)"
    and "\<forall>n. send_fault (raw d) n = None"
    and "\<forall>n. accepted x (com_id d) (device (raw d) n)"
  shows "table_set_bin_loop f x d tbl 0 off ptr len = None"
  using assms
proof (induction f arbitrary: d)
  case 0
  then show ?case by (simp add: loop_out_of_fuel)
next
  case (Suc f)
  let ?d1 = "after_polls 1 0
               (after_send [transfer d (enc @ status_list) (tbl \<noteq> SESSION_MGR x)] d)"
  have nf: "send_fault (raw d) (length (sent (raw d))) = None"
    using Suc.prems(4) by simp
  have ac: "accepted x (com_id d) (device (raw d) (length (received (raw d))))"
    using Suc.prems(5) by simp
  obtain rc where i: "invoke x d tbl (SET x) (set_bin_params off empty_bin) = (Inr rc, ?d1)"
    using invoke_accepted [OF Suc.prems(2) Suc.prems(3) nf ac] by blast
  have "table_set_bin_loop f x ?d1 tbl 0 off ptr len = None"
    by (rule Suc.IH) (use Suc.prems in simp_all)
  then show ?case using i Suc.prems(1) by (simp add: loop_zero_step)
qed

lemma chunk_size_of_eq: "chunk_size_of m = ((m - 104) div 4096) * 4096"
  by (simp add: chunk_size_of_def sizes_num)

lemma unat_chunk_size: "unat (chunk_size_of m) = (unat (m - 104) div 4096) * 4096"
proof -
  have d: "unat ((m - 104) div 4096) = unat (m - 104) div 4096"
    by (simp add: unat_div)
  have "unat (m - 104) div 4096 * 4096 \<le> unat (m - 104)" by simp
  also have "\<dots> < 2 ^ 64" using unsigned_less [of "m - 104"] by simp
  finally have lt: "unat ((m - 104) div 4096) * unat (4096 :: 64 word) < 2 ^ LENGTH(64)"
    unfolding d by simp
  have "unat ((m - 104) div 4096 * 4096) = unat ((m - 104) div 4096) * unat (4096 :: 64 word)"
    using lt by (simp only: unat_mult_lem [THEN iffD1])
  then show ?thesis unfolding chunk_size_of_eq d by simp
qed

lemma unat_minus_overhead:
  "unat (m - 104 :: 64 word) = (if 104 \<le> unat m then unat m - 104 else unat m + 2 ^ 64 - 104)"
proof (cases "104 \<le> unat m")
  case True
  then have "(104 :: 64 word) \<le> m" by (simp add: word_le_nat_alt)
  then show ?thesis using True by (simp add: unat_sub)
next
  case False
  then have "m < 104" by (simp add: word_less_nat_alt)
  then show ?thesis using False by (simp add: unat_sub_if_size word_size)
qed

lemma chunk_zero_iff: "chunk_size_of m = 0 \<longleftrightarrow> 104 \<le> unat m \<and> unat m < 4200"
proof -
  have "chunk_size_of m = 0 \<longleftrightarrow> unat (chunk_size_of m) = 0" by (simp add: unat_eq_0)
  also have "\<dots> \<longleftrightarrow> unat (m - 104) < 4096"
    unfolding unat_chunk_size by (simp add: div_eq_0_iff)
  also have "\<dots> \<longleftrightarrow> 104 \<le> unat m \<and> unat m < 4200"
    unfolding unat_minus_overhead by auto
  finally show ?thesis .
qed

lemma chunk_default: "chunk_size_of 512 = 0"
  by (simp add: chunk_zero_iff)

lemma send_size_facts:
  fixes C len :: "64 word"
  assumes "C \<noteq> 0" "len \<noteq> 0"
  defines "ss \<equiv> (if len > C then C else len)"
  shows "unat ss = min (unat C) (unat len)"
    and "0 < unat ss"
    and "unat (len - ss) = unat len - unat ss"
    and "of_nat (unat ss) = ss"
proof -
  show m: "unat ss = min (unat C) (unat len)"
    unfolding ss_def by (simp add: word_less_nat_alt min_def)
  have "0 < unat C" "0 < unat len" using assms(1,2) by (simp_all add: unat_gt_0)
  then show "0 < unat ss" unfolding m by simp
  have "ss \<le> len" unfolding ss_def by (simp add: word_le_nat_alt word_less_nat_alt)
  then show "unat (len - ss) = unat len - unat ss" by (rule unat_sub)
  show "of_nat (unat ss) = ss" by simp
qed

lemma loop_total:
  "C \<noteq> 0 \<Longrightarrow> unat len \<le> f \<Longrightarrow> table_set_bin_loop f x d tbl C off ptr len \<noteq> None"
proof (induction f arbitrary: d off ptr len)
  case 0
  then have "len = 0" by (simp add: unat_eq_0)
  then show ?case by (simp add: loop_done)
next
  case (Suc f)
  show ?case
  proof (cases "len = 0")
    case True
    then show ?thesis by (simp add: loop_done)
  next
    case False
    let ?ss = "if len > C then C else len"
    note ssf = send_size_facts [OF Suc.prems(1) False]
    have le: "unat (len - ?ss) \<le> f" using ssf(2,3) Suc.prems(2) by simp
    show ?thesis
    proof (cases "atom_bytes (take (unat ?ss) ptr)")
      case (Inl e)
      then show ?thesis unfolding loop_step [OF False] by simp
    next
      case (Inr a)
      obtain r d1 where i: "invoke x d tbl (SET x) (set_bin_params off a) = (r, d1)"
        by (cases "invoke x d tbl (SET x) (set_bin_params off a)")
      show ?thesis
      proof (cases r)
        case (Inl e)
        then show ?thesis unfolding loop_step [OF False] Inr using i by simp
      next
        case r: (Inr rc)
        have "table_set_bin_loop f x d1 tbl C (off + ?ss) (drop (unat ?ss) ptr) (len - ?ss) \<noteq> None"
          by (rule Suc.IH [OF Suc.prems(1) le])
        then show ?thesis unfolding loop_step [OF False] Inr using i r by simp
      qed
    qed
  qed
qed

lemma loop_law:
  "C \<noteq> 0 \<Longrightarrow> unat len \<le> length ptr \<Longrightarrow>
   table_set_bin_loop f x d tbl C off ptr len = Some (None, d') \<Longrightarrow>
   \<exists>ts. sent (raw d') = sent (raw d) @ ts
      \<and> map Some ts = set_calls x d tbl off (spec_chunks (unat C) (take (unat len) ptr))
      \<and> com_id d' = com_id d \<and> tper_session_id d' = tper_session_id d
      \<and> host_session_id d' = host_session_id d"
proof (induction f arbitrary: d off ptr len)
  case 0
  show ?case
  proof (cases "len = 0")
    case True
    then have "d' = d" using 0(3) by (simp add: loop_done)
    then show ?thesis using True by simp
  next
    case False
    then show ?thesis using 0(3) by (simp add: loop_out_of_fuel)
  qed
next
  case (Suc f)
  show ?case
  proof (cases "len = 0")
    case True
    then have "d' = d" using Suc.prems(3) by (simp add: loop_done)
    then show ?thesis using True by simp
  next
    case False
    let ?ss = "if len > C then C else len"
    let ?chunk = "take (unat ?ss) ptr"
    note ssf = send_size_facts [OF Suc.prems(1) False]
    note run = Suc.prems(3) [unfolded loop_step [OF False]]
    obtain a where a: "atom_bytes ?chunk = Inr a"
      using run by (cases "atom_bytes ?chunk") simp_all
    obtain r d1 where i: "invoke x d tbl (SET x) (set_bin_params off a) = (r, d1)"
      by (cases "invoke x d tbl (SET x) (set_bin_params off a)")
    obtain rc where r: "r = Inr rc"
      using run a i by (cases r) simp_all
    have rest: "table_set_bin_loop f x d1 tbl C (off + ?ss) (drop (unat ?ss) ptr) (len - ?ss)
                  = Some (None, d')"
      using run a i r by simp
    have le: "unat (len - ?ss) \<le> length (drop (unat ?ss) ptr)"
      using ssf(3) Suc.prems(2) by simp
    obtain ts where ts: "sent (raw d') = sent (raw d1) @ ts"
      "map Some ts = set_calls x d1 tbl (off + ?ss)
                       (spec_chunks (unat C) (take (unat (len - ?ss)) (drop (unat ?ss) ptr)))"
      "com_id d' = com_id d1" "tper_session_id d' = tper_session_id d1"
      "host_session_id d' = host_session_id d1"
      using Suc.IH [OF Suc.prems(1) le rest] by blast
    obtain enc k us where
      enc: "encode_vector x (METHOD tbl (SET x) (datum_list (set_bin_params off a))) = Inr enc"
      and d1: "d1 = after_polls k us
                      (after_send [transfer d (enc @ status_list) (tbl \<noteq> SESSION_MGR x)] d)"
      using invoke_success [OF i [unfolded r]] by blast
    let ?t = "transfer d (enc @ status_list) (tbl \<noteq> SESSION_MGR x)"
    have f1: "com_id d1 = com_id d" "tper_session_id d1 = tper_session_id d"
      "host_session_id d1 = host_session_id d" "sent (raw d1) = sent (raw d) @ [?t]"
      unfolding d1 by simp_all
    have sc: "set_call x d tbl off ?chunk = Some ?t"
      by (simp add: set_call_def a enc)
    have lc: "length ?chunk = unat ?ss"
      using ssf(1) Suc.prems(2) by simp
    have ne: "take (unat len) ptr \<noteq> []"
      using ssf(1,2) Suc.prems(2) by auto
    have hd: "take (unat C) (take (unat len) ptr) = ?chunk"
      unfolding ssf(1) by (simp add: min.commute)
    have tl: "drop (unat C) (take (unat len) ptr)
              = take (unat (len - ?ss)) (drop (unat ?ss) ptr)"
    proof (cases "len > C")
      case True
      then show ?thesis using ssf(3) by (simp add: drop_take)
    next
      case False
      then have "unat len \<le> unat C" by (simp add: word_less_nat_alt)
      then show ?thesis using False by simp
    qed
    have cpos: "0 < unat C" using Suc.prems(1) by (simp add: unat_gt_0)
    have split: "spec_chunks (unat C) (take (unat len) ptr)
                 = ?chunk # spec_chunks (unat C) (take (unat (len - ?ss)) (drop (unat ?ss) ptr))"
      unfolding spec_chunks_Cons [OF cpos ne] hd tl ..
    have off: "off + of_nat (length ?chunk) = off + ?ss"
      unfolding lc ssf(4) ..
    have calls: "set_calls x d tbl off (spec_chunks (unat C) (take (unat len) ptr))
                 = Some ?t # map Some ts"
      unfolding split set_calls.simps sc off ts(2)
      using set_calls_cong [OF f1(1,2,3)] by simp
    have "sent (raw d') = sent (raw d) @ (?t # ts)"
      unfolding ts(1) f1(4) by simp
    moreover have "map Some (?t # ts)
                     = set_calls x d tbl off (spec_chunks (unat C) (take (unat len) ptr))"
      unfolding calls by simp
    ultimately show ?thesis
      using ts(3,4,5) f1(1,2,3) by (intro exI [of _ "?t # ts"]) simp
  qed
qed

lemma encode_tiny_uint: "v < 0x40 \<Longrightarrow> encode_bytes (atom_uint v False) = [0x3f AND ucast v]"
  by (simp add: encode_bytes_def atom_uint_def tok_defs flag_def)

lemma example_set_encoding:
  "encode_vector example_externals (METHOD tbl s (datum_list (set_bin_params off a))) =
     Inr ([0xf8] @ (0xA8 # be64 tbl) @ (0xA8 # be64 s) @ [0xf0]
          @ ([0xf2, 0x00] @ encode_bytes (atom_uint off False) @ [0xf3])
          @ ([0xf2, 0x01] @ encode_bytes a @ [0xf3]) @ [0xf1])"
  by (simp add: set_bin_params_def encode_uid encode_tiny_uint)

lemma length_encode_uint: "length (encode_bytes (atom_uint off False)) \<le> 9"
  by (simp add: encode_bytes_def atom_uint_def)

lemma encode_empty_bin: "encode_bytes empty_bin = [0xa0]"
  by (simp add: encode_bytes_def empty_bin_def tok_defs flag_def)

lemma table_set_bin_zero_step:
  assumes z: "chunk_size_of (max_com_pkt_size d) = 0" and l: "len \<noteq> 0"
  shows "table_set_bin (Suc fuel) x d tbl offset ptr len =
           (case invoke x d tbl (SET x) (set_bin_params offset empty_bin) of
              (Inl e, d') \<Rightarrow> Some (Some e, d')
            | (Inr rc, d') \<Rightarrow> table_set_bin fuel x d' tbl offset ptr len)"
proof -
  obtain r d1 where i: "invoke x d tbl (SET x) (set_bin_params offset empty_bin) = (r, d1)"
    by (cases "invoke x d tbl (SET x) (set_bin_params offset empty_bin)")
  have "max_com_pkt_size d1 = max_com_pkt_size d"
    using invoke_ids(4) [of x d tbl "SET x" "set_bin_params offset empty_bin"] i by simp
  then show ?thesis
    using i by (simp add: table_set_bin_def z loop_zero_step [OF l] split: sum.splits)
qed

text \<open>
  C10 (zero chunk size), as the specification states it: with a chunk size of zero the
  call never terminates for any non-zero length. The loop has no exit but \<open>len = 0\<close>,
  yet every iteration invokes \<open>Set\<close>, and a failure of \<open>invoke\<close> leaves
  \<open>table_set_bin\<close>: at the default \<open>max_com_pkt_size = 512\<close>, on a drive that answers
  the call with status \<open>0x01\<close>, the call ends in its first iteration with "Method call
  failed", whatever the fuel.
\<close>

theorem set_bin_exception_counterexample:
  "chunk_size_of (max_com_pkt_size (example_drive (example_link (always denied_block)) 5 7 512)) = 0
   \<and> (\<forall>n. \<exists>d'. table_set_bin (Suc n) example_externals
                   (example_drive (example_link (always denied_block)) 5 7 512)
                   0x0000080400000000 0 [1, 2, 3] 3
                 = Some (Some (topaz_exception ''Method call failed''), d'))"
proof -
  let ?d = "example_drive (example_link (always denied_block)) 5 7 512"
  let ?enc = "[0xf8] @ (0xA8 # be64 0x0000080400000000) @ (0xA8 # be64 (SET example_externals))
          @ [0xf0] @ ([0xf2, 0x00] @ encode_bytes (atom_uint 0 False) @ [0xf3])
          @ ([0xf2, 0x01] @ encode_bytes empty_bin @ [0xf3]) @ [0xf1] :: byte list"
  have z: "chunk_size_of (max_com_pkt_size ?d) = 0" by (simp add: chunk_default)
  have l: "(3 :: 64 word) \<noteq> 0" by simp
  have len: "length ?enc \<le> 450"
    using length_encode_uint [of 0] by (simp add: encode_empty_bin)
  have m: "512 \<le> unat (512 :: 64 word)" by simp
  note i = example_invoke_denied [OF example_set_encoding len m, of 5 7]
  show ?thesis
    using z unfolding table_set_bin_zero_step [OF z l] i by simp
qed

text \<open>
  C10 as the code has it. The chunk size is zero exactly when \<open>max_com_pkt_size\<close> is at
  least 104 (the overhead) and below 4200 (below 104 the unsigned subtraction wraps to a
  huge chunk size), so at the default 512. Then, for a non-zero length, \<open>table_set_bin\<close>
  never returns normally; each iteration invokes \<open>Set\<close> with zero bytes of data and goes
  on with the same offset, data and length, or ends the call with the failure of that
  invocation; and when every such invocation succeeds (the call is encoded and fits, the
  transport takes every block, the drive accepts every call) the loop runs forever: no
  amount of fuel lets it return.
\<close>

theorem zero_chunk_loop:
  "(chunk_size_of m = 0 \<longleftrightarrow> 104 \<le> unat m \<and> unat m < 4200)
   \<and> (chunk_size_of (max_com_pkt_size d) = 0 \<and> len \<noteq> 0 \<longrightarrow>
        (\<forall>fuel d'. table_set_bin fuel x d tbl offset ptr len \<noteq> Some (None, d'))
        \<and> (\<forall>fuel. table_set_bin (Suc fuel) x d tbl offset ptr len =
              (case invoke x d tbl (SET x) (set_bin_params offset empty_bin) of
                 (Inl e, d') \<Rightarrow> Some (Some e, d')
               | (Inr rc, d') \<Rightarrow> table_set_bin fuel x d' tbl offset ptr len))
        \<and> (\<forall>enc. encode_vector x
                      (METHOD tbl (SET x) (datum_list (set_bin_params offset empty_bin))) = Inr enc
                  \<and> tot_size_of (length enc + 6) \<le> unat (max_com_pkt_size d)
                  \<and> (\<forall>n. send_fault (raw d) n = None)
                  \<and> (\<forall>n. accepted x (com_id d) (device (raw d) n)) \<longrightarrow>
              (\<forall>fuel. table_set_bin fuel x d tbl offset ptr len = None)))"
proof (intro conjI allI impI)
  show "chunk_size_of m = 0 \<longleftrightarrow> 104 \<le> unat m \<and> unat m < 4200" by (rule chunk_zero_iff)
next
  fix fuel d'
  assume a: "chunk_size_of (max_com_pkt_size d) = 0 \<and> len \<noteq> 0"
  then show "table_set_bin fuel x d tbl offset ptr len \<noteq> Some (None, d')"
    by (simp add: table_set_bin_def loop_zero_no_return)
next
  fix fuel
  assume a: "chunk_size_of (max_com_pkt_size d) = 0 \<and> len \<noteq> 0"
  show "table_set_bin (Suc fuel) x d tbl offset ptr len =
              (case invoke x d tbl (SET x) (set_bin_params offset empty_bin) of
                 (Inl e, d') \<Rightarrow> Some (Some e, d')
               | (Inr rc, d') \<Rightarrow> table_set_bin fuel x d' tbl offset ptr len)"
    by (rule table_set_bin_zero_step) (use a in simp_all)
next
  fix enc fuel
  assume a: "chunk_size_of (max_com_pkt_size d) = 0 \<and> len \<noteq> 0"
    and b: "encode_vector x
                      (METHOD tbl (SET x) (datum_list (set_bin_params offset empty_bin))) = Inr enc
                  \<and> tot_size_of (length enc + 6) \<le> unat (max_com_pkt_size d)
                  \<and> (\<forall>n. send_fault (raw d) n = None)
                  \<and> (\<forall>n. accepted x (com_id d) (device (raw d) n))"
  have "table_set_bin_loop fuel x d tbl 0 offset ptr len = None"
    by (rule loop_zero_forever [where enc = enc]) (use a b in simp_all)
  then show "table_set_bin fuel x d tbl offset ptr len = None"
    using a by (simp add: table_set_bin_def)
qed

theorem zero_chunk_loop_witness:
  "chunk_size_of (max_com_pkt_size (example_drive (example_link (always done_block)) 5 7 512)) = 0
   \<and> (\<forall>fuel. table_set_bin fuel example_externals
                 (example_drive (example_link (always done_block)) 5 7 512)
                 0x0000100100000000 0 [0xaa] 1 = None)"
proof -
  let ?d = "example_drive (example_link (always done_block)) 5 7 512"
  let ?enc = "[0xf8] @ (0xA8 # be64 0x0000100100000000) @ (0xA8 # be64 (SET example_externals))
          @ [0xf0] @ ([0xf2, 0x00] @ encode_bytes (atom_uint 0 False) @ [0xf3])
          @ ([0xf2, 0x01] @ encode_bytes empty_bin @ [0xf3]) @ [0xf1] :: byte list"
  have z: "chunk_size_of (max_com_pkt_size ?d) = 0" by (simp add: chunk_default)
  have l: "(1 :: 64 word) \<noteq> 0" by simp
  have len: "length ?enc + 6 \<le> 456"
    using length_encode_uint [of 0] by (simp add: encode_empty_bin)
  have fits: "tot_size_of (length ?enc + 6) \<le> unat (max_com_pkt_size ?d)"
    unfolding tot_size_small [OF len] by simp
  have enc: "encode_vector example_externals
               (METHOD 0x0000100100000000 (SET example_externals)
                  (datum_list (set_bin_params 0 empty_bin))) = Inr ?enc"
    by (rule example_set_encoding)
  have nf: "\<forall>n. send_fault (raw ?d) n = None" by simp
  have ac: "\<forall>n. accepted example_externals (com_id ?d) (device (raw ?d) n)"
    using done_accepted by simp
  from zero_chunk_loop [where d = ?d and len = 1 and x = example_externals
                          and tbl = "0x0000100100000000" and offset = 0 and ptr = "[0xaa]"]
    z l enc fits nf ac
  have "\<forall>fuel. table_set_bin fuel example_externals ?d 0x0000100100000000 0 [0xaa] 1 = None"
    by blast
  then show ?thesis using z by blast
qed

lemma chunk_8192: "chunk_size_of 8192 = 4096"
  by (simp add: chunk_size_of_eq)


text \<open>
  C8 (binary-table chunking). The specification has every call with \<open>len > 0\<close> send the
  payload as chunks whose concatenation is the data, the last chunk being the remainder.
  \<open>table_set_bin\<close> sets out to do so ("Send data in one or more chunks"), but takes
  every chunk, the last one too, no longer than the chunk size, and the chunk size is
  zero when \<open>max_com_pkt_size\<close> is from 104 to 4199. At the default
  \<open>max_com_pkt_size = 512\<close> and three bytes of data, one \<open>Set\<close> call with the three bytes fits the packet and the
  drive accepts it; the code sends \<open>Set\<close> calls with zero bytes, never sends the three
  bytes and never returns.
\<close>

theorem chunking_at_default_size:
  "chunk_size_of (max_com_pkt_size (example_drive (example_link (always done_block)) 5 7 512)) = 0
   \<and> take (unat (chunk_size_of 512)) [1, 2, 3 :: byte] = []
   \<and> atom_bytes [1, 2, 3]
       = Inr \<lparr>data_type = BYTES, data_enc = SHORT, int_skip = 0, uint_val = 0,
               bytes = [1, 2, 3]\<rparr>
   \<and> fst (invoke example_externals (example_drive (example_link (always done_block)) 5 7 512)
            0x0000080400000000 (SET example_externals)
            (set_bin_params 0 \<lparr>data_type = BYTES, data_enc = SHORT, int_skip = 0,
                                 uint_val = 0, bytes = [1, 2, 3]\<rparr>))
       = Inr (LIST [])
   \<and> (\<forall>fuel. table_set_bin fuel example_externals
                 (example_drive (example_link (always done_block)) 5 7 512)
                 0x0000080400000000 0 [1, 2, 3] 3 = None)"
proof -
  let ?d = "example_drive (example_link (always done_block)) 5 7 512"
  let ?a = "\<lparr>data_type = BYTES, data_enc = SHORT, int_skip = 0, uint_val = 0,
             bytes = [1, 2, 3 :: byte]\<rparr>"
  let ?enc = "[0xf8] @ (0xA8 # be64 0x0000080400000000) @ (0xA8 # be64 (SET example_externals))
          @ [0xf0] @ ([0xf2, 0x00] @ encode_bytes (atom_uint 0 False) @ [0xf3])
          @ ([0xf2, 0x01] @ encode_bytes empty_bin @ [0xf3]) @ [0xf1] :: byte list"
  let ?whole = "[0xf8] @ (0xA8 # be64 0x0000080400000000) @ (0xA8 # be64 (SET example_externals))
          @ [0xf0] @ ([0xf2, 0x00] @ encode_bytes (atom_uint 0 False) @ [0xf3])
          @ ([0xf2, 0x01] @ encode_bytes ?a @ [0xf3]) @ [0xf1] :: byte list"
  have z: "chunk_size_of (max_com_pkt_size ?d) = 0" by (simp add: chunk_default)
  have l: "(3 :: 64 word) \<noteq> 0" by simp
  have len: "length ?enc + 6 \<le> 456"
    using length_encode_uint [of 0] by (simp add: encode_empty_bin)
  have fits: "tot_size_of (length ?enc + 6) \<le> unat (max_com_pkt_size ?d)"
    unfolding tot_size_small [OF len] by simp
  have enc: "encode_vector example_externals
               (METHOD 0x0000080400000000 (SET example_externals)
                  (datum_list (set_bin_params 0 empty_bin))) = Inr ?enc"
    by (rule example_set_encoding)
  have nf: "\<forall>n. send_fault (raw ?d) n = None" by simp
  have ac: "\<forall>n. accepted example_externals (com_id ?d) (device (raw ?d) n)"
    using done_accepted by simp
  have never: "table_set_bin_loop fuel example_externals ?d 0x0000080400000000 0 0 [1, 2, 3] 3 = None"
    for fuel
    by (rule loop_zero_forever [OF l enc fits nf ac])
  have ab: "atom_bytes [1, 2, 3] = Inr ?a"
    by (simp add: atom_bytes_def pick_encoding_def)
  have ea: "length (encode_bytes ?a) = 4"
    by (simp add: encode_bytes_def)
  have wl: "length ?whole \<le> 450"
    using length_encode_uint [of 0] by (simp add: ea)
  have m: "512 \<le> unat (512 :: 64 word)" by simp
  have whole: "fst (invoke example_externals ?d 0x0000080400000000 (SET example_externals)
                      (set_bin_params 0 ?a)) = Inr (LIST [])"
    using example_invoke_done [OF example_set_encoding wl m, of 5 7] by simp
  show ?thesis
    using z never ab whole by (simp add: table_set_bin_def chunk_default)
qed


lemma invoke_always_done:
  assumes dev: "device (raw d) (length (received (raw d))) = Inr done_block"
    and nf: "send_fault (raw d) (length (sent (raw d))) = None"
    and cid: "com_id d = 0x07fe"
    and enc: "encode_vector example_externals (METHOD obj meth (datum_list params)) = Inr enc"
    and fits: "tot_size_of (length enc + 6) \<le> unat (max_com_pkt_size d)"
  shows "invoke example_externals d obj meth params
         = (Inr (LIST []),
            after_polls 1 0 (after_send [transfer d (enc @ status_list) (obj \<noteq> 0xff)] d))"
proof -
  have "invoke example_externals d obj meth params
         = (if length (reply_of done_block) - 2 \<noteq> 6
            then Inl (topaz_exception ''Invalid method status on return'')
            else if reply_of done_block ! (2 + 2) \<noteq> 0
            then Inl (topaz_exception ''Method call failed'')
            else Inr (LIST []),
            after_polls 1 0
              (after_send [transfer d (enc @ status_list) (obj \<noteq> SESSION_MGR example_externals)] d))"
    by (rule invoke_answer [OF enc fits])
       (simp_all add: dev nf cid done_reply sizes_num example_decode_def)
  then show ?thesis by (simp add: done_reply)
qed

lemma tot_size_mono: "a \<le> b \<Longrightarrow> tot_size_of a \<le> tot_size_of b"
proof -
  assume ab: "a \<le> b"
  have pm: "PAD_TO_MULTIPLE u m \<le> PAD_TO_MULTIPLE v m" if "u \<le> v" for u v m
    unfolding PAD_TO_MULTIPLE_def using that by (intro mult_le_mono1 div_le_mono) simp
  have "pkt_size_of a \<le> pkt_size_of b"
    unfolding pkt_size_of_def using ab by (intro pm) simp
  then have "com_size_of a \<le> com_size_of b" by (simp add: com_size_of_def)
  then show ?thesis unfolding tot_size_of_def by (intro pm) simp
qed

lemma tot_size_4200: "tot_size_of 4200 = 4608"
  by (simp add: tot_size_of_def com_size_of_def pkt_size_of_def PAD_TO_MULTIPLE_def
      sizeof_sub_packet_header_def sizeof_packet_header_def sizeof_com_packet_header_def
      ATA_BLOCK_SIZE_def)

lemma encode_4112: "encode_bytes (atom_uint 4112 False) = [0x82, 0x10, 0x10]"
  by code_simp

lemma two_chunks_run:
  "spec_chunks 4096 (replicate 4096 0xaa @ [0xbb]) = [replicate 4096 0xaa, [0xbb]]
   \<and> table_set_bin 5 example_externals
        (example_drive (example_link (always done_block)) 5 7 8192)
        0x0000080400000000 16 (replicate 4096 0xaa @ [0xbb]) 4097
       = Some (None,
           after_polls 2 0
             (after_send
                [transfer (example_drive (example_link (always done_block)) 5 7 8192)
                   (([0xf8] @ (0xA8 # be64 0x0000080400000000)
                     @ (0xA8 # be64 0x0000000600000017)
                     @ [0xf0, 0xf2, 0x00, 0x10, 0xf3, 0xf2, 0x01]
                     @ ([0xe2, 0x00, 0x10, 0x00] @ replicate 4096 0xaa) @ [0xf3, 0xf1])
                    @ status_list) True,
                 transfer (example_drive (example_link (always done_block)) 5 7 8192)
                   (([0xf8] @ (0xA8 # be64 0x0000080400000000)
                     @ (0xA8 # be64 0x0000000600000017)
                     @ [0xf0, 0xf2, 0x00, 0x82, 0x10, 0x10, 0xf3, 0xf2, 0x01]
                     @ [0xa1, 0xbb] @ [0xf3, 0xf1])
                    @ status_list) True]
                (example_drive (example_link (always done_block)) 5 7 8192)))"
proof -
  let ?d = "example_drive (example_link (always done_block)) 5 7 8192"
  let ?a1 = "\<lparr>data_type = BYTES, data_enc = LONG, int_skip = 0, uint_val = 0,
              bytes = replicate 4096 (0xaa :: byte)\<rparr>"
  let ?a2 = "\<lparr>data_type = BYTES, data_enc = SHORT, int_skip = 0, uint_val = 0,
              bytes = [0xbb :: byte]\<rparr>"
  let ?p1 = "[0xf8] @ (0xA8 # be64 0x0000080400000000) @ (0xA8 # be64 0x0000000600000017)
             @ [0xf0, 0xf2, 0x00, 0x10, 0xf3, 0xf2, 0x01]
             @ ([0xe2, 0x00, 0x10, 0x00] @ replicate 4096 0xaa) @ [0xf3, 0xf1] :: byte list"
  let ?p2 = "[0xf8] @ (0xA8 # be64 0x0000080400000000) @ (0xA8 # be64 0x0000000600000017)
             @ [0xf0, 0xf2, 0x00, 0x82, 0x10, 0x10, 0xf3, 0xf2, 0x01]
             @ [0xa1, 0xbb] @ [0xf3, 0xf1] :: byte list"
  let ?e1 = "after_polls 1 0 (after_send [transfer ?d (?p1 @ status_list) True] ?d)"
  have c: "chunk_size_of (max_com_pkt_size ?d) = 4096" by (simp add: chunk_8192)
  have ab1: "atom_bytes (replicate 4096 0xaa) = Inr ?a1"
    by (simp add: atom_bytes_def pick_encoding_def)
  have ab2: "atom_bytes [0xbb] = Inr ?a2"
    by (simp add: atom_bytes_def pick_encoding_def)
  have ea1: "encode_bytes ?a1 = [0xe2, 0x00, 0x10, 0x00] @ replicate 4096 0xaa"
    by (simp add: encode_bytes_def tok_defs flag_def)
  have ea2: "encode_bytes ?a2 = [0xa1, 0xbb]"
    by (simp add: encode_bytes_def tok_defs flag_def)
  have enc1: "encode_vector example_externals
               (METHOD 0x0000080400000000 0x0000000600000017
                  (datum_list (set_bin_params 16 ?a1))) = Inr ?p1"
    using example_set_encoding [of "0x0000080400000000" "0x0000000600000017" 16 ?a1]
    by (simp add: ea1 encode_tiny_uint)
  have enc2: "encode_vector example_externals
               (METHOD 0x0000080400000000 0x0000000600000017
                  (datum_list (set_bin_params 4112 ?a2))) = Inr ?p2"
    using example_set_encoding [of "0x0000080400000000" "0x0000000600000017" 4112 ?a2]
    by (simp add: ea2 encode_4112)
  have f1: "tot_size_of (length ?p1 + 6) \<le> unat (max_com_pkt_size ?d)"
    using tot_size_mono [of "length ?p1 + 6" 4200] by (simp add: tot_size_4200)
  define e1 where "e1 = ?e1"
  define e2 where "e2 = after_polls 1 0 (after_send [transfer e1 (?p2 @ status_list) True] e1)"
  have e1f: "com_id e1 = 0x07fe" "max_com_pkt_size e1 = 8192"
    "tper_session_id e1 = 5" "host_session_id e1 = 7"
    "device (raw e1) (length (received (raw e1))) = Inr done_block"
    "send_fault (raw e1) (length (sent (raw e1))) = None"
    by (simp_all add: e1_def always_def)
  have f2: "tot_size_of (length ?p2 + 6) \<le> unat (max_com_pkt_size e1)"
    using tot_size_small [of "length ?p2 + 6"] by (simp add: e1f)
  have i1: "invoke example_externals ?d 0x0000080400000000 0x0000000600000017
              (set_bin_params 16 ?a1) = (Inr (LIST []), e1)"
    unfolding e1_def using invoke_always_done [OF _ _ _ enc1 f1] by (simp add: always_def)
  have i2: "invoke example_externals e1 0x0000080400000000 0x0000000600000017
              (set_bin_params 4112 ?a2) = (Inr (LIST []), e2)"
    unfolding e2_def using invoke_always_done [OF e1f(5) e1f(6) e1f(1) enc2 f2] by simp
  have l1: "(4097 :: 64 word) \<noteq> 0" and l2: "(1 :: 64 word) \<noteq> 0" by simp_all
  have s5: "(5 :: nat) = Suc 4" and s4: "(4 :: nat) = Suc 3" by simp_all
  have step2: "table_set_bin_loop 4 example_externals e1 0x0000080400000000 4096 4112 [0xbb] 1
               = Some (None, e2)"
    unfolding s4 loop_step [OF l2] by (simp add: ab2 i2 loop_done)
  have step1: "table_set_bin_loop 5 example_externals ?d 0x0000080400000000 4096 16
                 (replicate 4096 0xaa @ [0xbb]) 4097 = Some (None, e2)"
    unfolding s5 loop_step [OF l1] by (simp add: ab1 i1 step2)
  have t: "transfer e1 outbuf s = transfer ?d outbuf s" for outbuf s
    by (rule transfer_cong) (simp_all add: e1f)
  have e2: "e2 = after_polls 2 0
                    (after_send [transfer ?d (?p1 @ status_list) True,
                                 transfer ?d (?p2 @ status_list) True] ?d)"
  proof -
    have r2: "replicate 2 y = [y, y]" for y :: "byte \<times> 16 word \<times> byte"
      by (simp add: numeral_2_eq_2)
    show ?thesis
      unfolding e2_def t unfolding e1_def
      by (simp add: after_polls_def after_send_def r2)
  qed
  have sc: "spec_chunks 4096 (replicate 4096 0xaa @ [0xbb]) = [replicate 4096 0xaa, [0xbb]]"
    by (simp add: spec_chunks_Cons)
  show ?thesis
    using sc step1 unfolding e2 by (simp add: table_set_bin_def chunk_8192)
qed


text \<open>
  The chunking of \<open>table_set_bin\<close> where the chunk size is positive. The chunk size is
  the largest multiple of 4096 within \<open>max_com_pkt_size - 104\<close> (unsigned 64-bit). When
  it is positive, the call ends within \<open>len\<close> iterations (normally or with a failure).
  Whenever a call on at least \<open>len\<close> bytes of data returns normally, the transfers made
  are exactly those of the \<open>Set\<close> invocations on the chunks of the first \<open>len\<close> bytes,
  in order: the chunks concatenate to the data, every chunk but the last has the chunk
  size, the last is the non-empty remainder, and each invocation's offset is the initial
  offset plus the bytes of the chunks before it.
\<close>

theorem binary_table_chunking:
  "(chunk_size_of (max_com_pkt_size d) \<noteq> 0 \<and> unat len \<le> fuel \<longrightarrow>
      table_set_bin fuel x d tbl offset ptr len \<noteq> None)
   \<and> unat (chunk_size_of (max_com_pkt_size d))
       = (unat (max_com_pkt_size d - 104) div 4096) * 4096
   \<and> (\<forall>d'. table_set_bin fuel x d tbl offset ptr len = Some (None, d')
            \<and> unat len \<le> length ptr \<longrightarrow>
        (len \<noteq> 0 \<longrightarrow> chunk_size_of (max_com_pkt_size d) \<noteq> 0)
        \<and> concat (spec_chunks (unat (chunk_size_of (max_com_pkt_size d))) (take (unat len) ptr))
            = take (unat len) ptr
        \<and> (\<forall>ch \<in> set (butlast (spec_chunks (unat (chunk_size_of (max_com_pkt_size d)))
                                   (take (unat len) ptr))).
              length ch = unat (chunk_size_of (max_com_pkt_size d)))
        \<and> (\<forall>ch \<in> set (spec_chunks (unat (chunk_size_of (max_com_pkt_size d)))
                          (take (unat len) ptr)).
              0 < length ch \<and> length ch \<le> unat (chunk_size_of (max_com_pkt_size d)))
        \<and> (\<exists>ts. sent (raw d') = sent (raw d) @ ts
                \<and> map Some ts
                    = set_calls x d tbl offset
                        (spec_chunks (unat (chunk_size_of (max_com_pkt_size d)))
                           (take (unat len) ptr))))"
proof (intro conjI allI impI ballI)
  assume "chunk_size_of (max_com_pkt_size d) \<noteq> 0 \<and> unat len \<le> fuel"
  then show "table_set_bin fuel x d tbl offset ptr len \<noteq> None"
    by (simp add: table_set_bin_def loop_total)
next
  show "unat (chunk_size_of (max_com_pkt_size d))
       = (unat (max_com_pkt_size d - 104) div 4096) * 4096"
    by (rule unat_chunk_size)
next
  fix d'
  assume a: "table_set_bin fuel x d tbl offset ptr len = Some (None, d') \<and> unat len \<le> length ptr"
    and l: "len \<noteq> 0"
  show "chunk_size_of (max_com_pkt_size d) \<noteq> 0"
  proof
    assume "chunk_size_of (max_com_pkt_size d) = 0"
    then show False
      using a l loop_zero_no_return [of len fuel x d tbl offset ptr d']
      by (simp add: table_set_bin_def)
  qed
next
  fix d'
  assume a: "table_set_bin fuel x d tbl offset ptr len = Some (None, d') \<and> unat len \<le> length ptr"
  let ?C = "chunk_size_of (max_com_pkt_size d)"
  have nz: "?C \<noteq> 0 \<or> len = 0"
  proof (rule ccontr)
    assume "\<not> (?C \<noteq> 0 \<or> len = 0)"
    then have c: "?C = 0" and l: "len \<noteq> 0" by simp_all
    show False
      using a loop_zero_no_return [OF l, of fuel x d tbl offset ptr d']
      by (simp add: table_set_bin_def c)
  qed
  show "concat (spec_chunks (unat ?C) (take (unat len) ptr)) = take (unat len) ptr"
  proof (cases "len = 0")
    case True
    then show ?thesis by simp
  next
    case False
    then have "0 < unat ?C" using nz by (simp add: unat_gt_0)
    then show ?thesis by (rule concat_spec_chunks)
  qed
  show "\<exists>ts. sent (raw d') = sent (raw d) @ ts
                \<and> map Some ts = set_calls x d tbl offset (spec_chunks (unat ?C) (take (unat len) ptr))"
  proof (cases "len = 0")
    case True
    then have "d' = d" using a by (simp add: table_set_bin_def loop_done)
    then show ?thesis using True by simp
  next
    case False
    then have c: "?C \<noteq> 0" using nz by simp
    show ?thesis
      using loop_law [OF c conjunct2 [OF a] conjunct1 [OF a, unfolded table_set_bin_def]]
      by blast
  qed
  {
    fix ch
    assume ch: "ch \<in> set (butlast (spec_chunks (unat ?C) (take (unat len) ptr)))"
    show "length ch = unat ?C"
    proof (cases "len = 0")
      case True
      then show ?thesis using ch by simp
    next
      case False
      then have "0 < unat ?C" using nz by (simp add: unat_gt_0)
      then show ?thesis using ch by (rule spec_chunks_butlast)
    qed
  }
  {
    fix ch
    assume ch: "ch \<in> set (spec_chunks (unat ?C) (take (unat len) ptr))"
    have "0 < length ch \<and> length ch \<le> unat ?C"
    proof (cases "len = 0")
      case True
      then show ?thesis using ch by simp
    next
      case False
      then have "0 < unat ?C" using nz by (simp add: unat_gt_0)
      then show ?thesis using ch by (rule spec_chunks_lengths)
    qed
    then show "0 < length ch" "length ch \<le> unat ?C" by simp_all
  }
qed

theorem binary_table_chunking_witness:
  "unat (chunk_size_of (max_com_pkt_size
           (example_drive (example_link (always done_block)) 5 7 8192))) = 4096
   \<and> spec_chunks 4096 (replicate 4096 0xaa @ [0xbb]) = [replicate 4096 0xaa, [0xbb]]
   \<and> (\<exists>d'. table_set_bin 5 example_externals
               (example_drive (example_link (always done_block)) 5 7 8192)
               0x0000080400000000 16 (replicate 4096 0xaa @ [0xbb]) 4097 = Some (None, d')
           \<and> length (sent (raw d')) = 2)
   \<and> set_calls example_externals
         (example_drive (example_link (always done_block)) 5 7 8192)
         0x0000080400000000 16 [replicate 4096 0xaa, [0xbb]]
       = [Some (transfer (example_drive (example_link (always done_block)) 5 7 8192)
                  (([0xf8] @ (0xA8 # be64 0x0000080400000000)
                    @ (0xA8 # be64 0x0000000600000017)
                    @ [0xf0, 0xf2, 0x00, 0x10, 0xf3, 0xf2, 0x01]
                    @ ([0xe2, 0x00, 0x10, 0x00] @ replicate 4096 0xaa) @ [0xf3, 0xf1])
                   @ status_list) True),
          Some (transfer (example_drive (example_link (always done_block)) 5 7 8192)
                  (([0xf8] @ (0xA8 # be64 0x0000080400000000)
                    @ (0xA8 # be64 0x0000000600000017)
                    @ [0xf0, 0xf2, 0x00, 0x82, 0x10, 0x10, 0xf3, 0xf2, 0x01]
                    @ [0xa1, 0xbb] @ [0xf3, 0xf1])
                   @ status_list) True)]"
proof -
  let ?d = "example_drive (example_link (always done_block)) 5 7 8192"
  let ?data = "replicate 4096 0xaa @ [0xbb] :: byte list"
  let ?p1 = "[0xf8] @ (0xA8 # be64 0x0000080400000000) @ (0xA8 # be64 0x0000000600000017)
             @ [0xf0, 0xf2, 0x00, 0x10, 0xf3, 0xf2, 0x01]
             @ ([0xe2, 0x00, 0x10, 0x00] @ replicate 4096 0xaa) @ [0xf3, 0xf1] :: byte list"
  let ?p2 = "[0xf8] @ (0xA8 # be64 0x0000080400000000) @ (0xA8 # be64 0x0000000600000017)
             @ [0xf0, 0xf2, 0x00, 0x82, 0x10, 0x10, 0xf3, 0xf2, 0x01]
             @ [0xa1, 0xbb] @ [0xf3, 0xf1] :: byte list"
  let ?e = "after_polls 2 0
              (after_send [transfer ?d (?p1 @ status_list) True,
                           transfer ?d (?p2 @ status_list) True] ?d)"
  have c: "chunk_size_of (max_com_pkt_size ?d) = 4096" by (simp add: chunk_8192)
  have sc: "spec_chunks 4096 ?data = [replicate 4096 0xaa, [0xbb]]"
    using two_chunks_run by blast
  have ret: "table_set_bin 5 example_externals ?d 0x0000080400000000 16 ?data 4097
             = Some (None, ?e)"
    using two_chunks_run by blast
  have le: "unat (4097 :: 64 word) \<le> length ?data" by simp
  have tk: "take (unat (4097 :: 64 word)) ?data = ?data" by simp
  from binary_table_chunking [where fuel = 5 and x = example_externals and d = ?d
          and tbl = "0x0000080400000000" and offset = 16 and ptr = ?data and len = 4097]
    ret le
  have "\<exists>ts. sent (raw ?e) = sent (raw ?d) @ ts
         \<and> map Some ts = set_calls example_externals ?d 0x0000080400000000 16
                            (spec_chunks (unat (chunk_size_of (max_com_pkt_size ?d)))
                               (take (unat (4097 :: 64 word)) ?data))"
    by blast
  then obtain ts where ts: "sent (raw ?e) = sent (raw ?d) @ ts"
    "map Some ts = set_calls example_externals ?d 0x0000080400000000 16
                     [replicate 4096 0xaa, [0xbb]]"
    unfolding c tk using sc by auto
  have "ts = [transfer ?d (?p1 @ status_list) True, transfer ?d (?p2 @ status_list) True]"
    using ts(1) by simp
  then have calls: "set_calls example_externals ?d 0x0000080400000000 16
                      [replicate 4096 0xaa, [0xbb]]
                    = [Some (transfer ?d (?p1 @ status_list) True),
                       Some (transfer ?d (?p2 @ status_list) True)]"
    using ts(2) by simp
  have two: "length (sent (raw ?e)) = 2" by simp
  show ?thesis
    using c sc ret two calls by (intro conjI exI [of _ ?e]) simp_all
qed

end
